theory Spec2Isabelle
  imports Complex_Main "HOL-Library.Sublist" "HOL-Library.Multiset"
begin

section \<open>Data model\<close>

text \<open>
  The program is one script, \<^verbatim>\<open>src/main_file.js\<close>: five promise wrappers around one
  IndexedDB object store (\<^verbatim>\<open>addFileEntry\<close>, \<^verbatim>\<open>listAllFiles\<close>, \<^verbatim>\<open>getFileById\<close>,
  \<^verbatim>\<open>deleteFileById\<close>, \<^verbatim>\<open>clearAll\<close>), a size formatter (\<^verbatim>\<open>humanSize\<close>), a list
  renderer (\<^verbatim>\<open>renderList\<close>, \<^verbatim>\<open>createFileRow\<close>) and the click handlers of the page.

  A \<^verbatim>\<open>File\<close> picked by the user has a name, a MIME type, a byte length and its bytes.
  The object literal of line 26 is an \<open>entry\<close>; once stored, the engine has written
  the generated key into it at the key path \<^verbatim>\<open>id\<close>, which gives a \<open>file_record\<close>.
  The field names carry a prefix because \<open>id\<close> and \<open>size\<close> are constants of HOL and
  because the three records share the names \<^verbatim>\<open>name\<close>, \<^verbatim>\<open>type\<close> and \<^verbatim>\<open>size\<close>.
\<close>

record File =
  file_name :: string
  file_type :: string
  file_size :: nat
  file_bytes :: string

record entry =
  entry_name :: string
  entry_type :: string
  entry_size :: nat
  entry_added :: int
  entry_blob :: File

record file_record =
  rec_id :: nat
  rec_name :: string
  rec_type :: string
  rec_size :: nat
  rec_added :: int
  rec_blob :: File

text \<open>
  A rejected promise carries a \<^verbatim>\<open>DOMException\<close>: the handlers read its \<^verbatim>\<open>message\<close>, and
  string concatenation reads its \<^verbatim>\<open>toString()\<close>, which is the name alone when the
  message is empty.
\<close>

record DOMException =
  exn_name :: string
  exn_message :: string

definition exn_toString :: "DOMException \<Rightarrow> string" where
  "exn_toString e =
     (if exn_name e = [] then exn_message e
      else if exn_message e = [] then exn_name e
      else exn_name e @ '': '' @ exn_message e)"

section \<open>JavaScript values and \<^verbatim>\<open>Number(v)\<close>\<close>

text \<open>
  \<^verbatim>\<open>getFileById\<close> and \<^verbatim>\<open>deleteFileById\<close> pass \<^verbatim>\<open>Number(id)\<close> to the store, so the
  argument is any primitive value. Numbers are modelled by their exact mathematical
  value: this agrees with binary64 on every value that binary64 represents, in particular
  on every integer up to \<open>2 ^ 53\<close>, the range of the generated keys. Rounding of longer
  literals and overflow to infinity are outside the model. Strings are ASCII.
\<close>

datatype jsnum = Finite rat | PosInf | NegInf | NaN

datatype jsval = JUndefined | JNull | JBool bool | JNum jsnum | JStr string

definition is_ws :: "char \<Rightarrow> bool" where
  "is_ws c = (of_char c \<in> {9, 10, 11, 12, 13, 32 :: nat})"

definition trim :: "string \<Rightarrow> string" where
  "trim s = rev (dropWhile is_ws (rev (dropWhile is_ws s)))"

definition is_digit :: "char \<Rightarrow> bool" where
  "is_digit c = (48 \<le> (of_char c :: nat) \<and> (of_char c :: nat) \<le> 57)"

definition digit_val :: "char \<Rightarrow> nat" where
  "digit_val c = of_char c - 48"

definition digits_val :: "string \<Rightarrow> nat" where
  "digits_val s = foldl (\<lambda>a c. 10 * a + digit_val c) 0 s"

text \<open>Digits of the other radices: \<^verbatim>\<open>0x1F\<close>, \<^verbatim>\<open>0o17\<close>, \<^verbatim>\<open>0b101\<close>.\<close>

definition radix_digit :: "char \<Rightarrow> nat option" where
  "radix_digit c =
     (let n = (of_char c :: nat) in
      if 48 \<le> n \<and> n \<le> 57 then Some (n - 48)
      else if 97 \<le> n \<and> n \<le> 102 then Some (n - 87)
      else if 65 \<le> n \<and> n \<le> 70 then Some (n - 55)
      else None)"

definition radix_ok :: "nat \<Rightarrow> char \<Rightarrow> bool" where
  "radix_ok b c = (case radix_digit c of None \<Rightarrow> False | Some d \<Rightarrow> d < b)"

definition parse_radix :: "nat \<Rightarrow> string \<Rightarrow> jsnum" where
  "parse_radix b s =
     (if s \<noteq> [] \<and> list_all (radix_ok b) s
      then Finite (of_nat (foldl (\<lambda>a c. b * a + the (radix_digit c)) 0 s))
      else NaN)"

definition exponent_part :: "rat \<Rightarrow> string \<Rightarrow> jsnum" where
  "exponent_part m r =
     (case r of
        [] \<Rightarrow> Finite m
      | c # r' \<Rightarrow>
          if c = CHR ''e'' \<or> c = CHR ''E'' then
            (let neg = (r' \<noteq> [] \<and> hd r' = CHR ''-'');
                 d = (if r' \<noteq> [] \<and> (hd r' = CHR ''+'' \<or> hd r' = CHR ''-'') then tl r' else r')
             in if d \<noteq> [] \<and> list_all is_digit d
                then Finite (if neg then m / 10 ^ digits_val d else m * 10 ^ digits_val d)
                else NaN)
          else NaN)"

definition unsigned_decimal :: "string \<Rightarrow> jsnum" where
  "unsigned_decimal r =
     (if r = ''Infinity'' then PosInf
      else
        let ip = takeWhile is_digit r; r1 = dropWhile is_digit r in
        (case r1 of
           [] \<Rightarrow> if ip = [] then NaN else Finite (of_nat (digits_val ip))
         | c # r2 \<Rightarrow>
             if c = CHR ''.'' then
               (let fp = takeWhile is_digit r2; r3 = dropWhile is_digit r2 in
                if ip = [] \<and> fp = [] then NaN
                else exponent_part
                       (of_nat (digits_val ip) + of_nat (digits_val fp) / 10 ^ length fp) r3)
             else if ip = [] then NaN
             else exponent_part (of_nat (digits_val ip)) r1))"

definition negate :: "jsnum \<Rightarrow> jsnum" where
  "negate x = (case x of Finite q \<Rightarrow> Finite (- q) | PosInf \<Rightarrow> NegInf
                 | NegInf \<Rightarrow> PosInf | NaN \<Rightarrow> NaN)"

definition StringToNumber :: "string \<Rightarrow> jsnum" where
  "StringToNumber s =
     (let t = trim s in
      if t = [] then Finite 0
      else if take 2 t = ''0x'' \<or> take 2 t = ''0X'' then parse_radix 16 (drop 2 t)
      else if take 2 t = ''0o'' \<or> take 2 t = ''0O'' then parse_radix 8 (drop 2 t)
      else if take 2 t = ''0b'' \<or> take 2 t = ''0B'' then parse_radix 2 (drop 2 t)
      else if hd t = CHR ''+'' then unsigned_decimal (tl t)
      else if hd t = CHR ''-'' then negate (unsigned_decimal (tl t))
      else unsigned_decimal t)"

fun Number_js :: "jsval \<Rightarrow> jsnum" where
  "Number_js JUndefined = NaN"
| "Number_js JNull = Finite 0"
| "Number_js (JBool b) = Finite (if b then 1 else 0)"
| "Number_js (JNum x) = x"
| "Number_js (JStr s) = StringToNumber s"

text \<open>
  The string form of a non-negative integer below \<open>10 ^ 21\<close>, as \<^verbatim>\<open>String(k)\<close>,
  \<^verbatim>\<open>k + ''\<close> and \<^verbatim>\<open>k.toString()\<close> give it: its decimal digits.
\<close>

text \<open>\<open>digit_char\<close> is only ever applied to a number below ten.\<close>

definition digit_char :: "nat \<Rightarrow> char" where
  "digit_char d = ''0123456789'' ! d"

fun Number_toString :: "nat \<Rightarrow> string" where
  "Number_toString n =
     (if n < 10 then [digit_char n]
      else Number_toString (n div 10) @ [digit_char (n mod 10)])"

declare Number_toString.simps [simp del]

section \<open>The object store\<close>

text \<open>
  \<^verbatim>\<open>openDB\<close> creates, on the first use of the database, one object store with key path
  \<^verbatim>\<open>id\<close> and a key generator (\<^verbatim>\<open>autoIncrement: true\<close>). The store is the list of its
  records in ascending key order, which is the order of \<^verbatim>\<open>getAll()\<close>, and the current
  number of its key generator. A database that does not exist yet behaves as
  \<open>fresh_db\<close>: the first \<^verbatim>\<open>openDB\<close> creates exactly that.

  The generator hands out its current number and then increases it; beyond \<open>2 ^ 53\<close> it
  is exhausted and the request fails with a \<^verbatim>\<open>ConstraintError\<close>. \<^verbatim>\<open>delete\<close> and
  \<^verbatim>\<open>clear\<close> leave the generator alone, so a key is never handed out twice.
\<close>

record database =
  records :: "file_record list"
  keygen :: nat

definition fresh_db :: database where
  "fresh_db = \<lparr>records = [], keygen = 1\<rparr>"

definition max_key :: nat where
  "max_key = 2 ^ 53"

text \<open>
  What the browser decides during one call of a wrapper: whether \<^verbatim>\<open>indexedDB.open\<close>
  fails (line 17), whether the request fails (the \<^verbatim>\<open>rq.onerror\<close> of each wrapper), and
  the message text it gives to the exceptions it raises itself. The wrappers settle on
  the events of their request and never listen to the transaction, so the model takes a
  fulfilled request as committed. A request of the model always settles: a stalled
  transaction is outside it.
\<close>

record engine =
  open_error :: "DOMException option"
  request_error :: "DOMException option"
  message_for :: "string \<Rightarrow> string"

definition no_fault :: "(string \<Rightarrow> string) \<Rightarrow> engine" where
  "no_fault msg = \<lparr>open_error = None, request_error = None, message_for = msg\<rparr>"

definition engine_exn :: "engine \<Rightarrow> string \<Rightarrow> DOMException" where
  "engine_exn eng n = \<lparr>exn_name = n, exn_message = message_for eng n\<rparr>"

definition openDB :: "engine \<Rightarrow> database \<Rightarrow> DOMException + database" where
  "openDB eng db = (case open_error eng of Some e \<Rightarrow> Inl e | None \<Rightarrow> Inr db)"

definition stored :: "nat \<Rightarrow> entry \<Rightarrow> file_record" where
  "stored k e =
     \<lparr>rec_id = k, rec_name = entry_name e, rec_type = entry_type e,
      rec_size = entry_size e, rec_added = entry_added e, rec_blob = entry_blob e\<rparr>"

text \<open>\<^verbatim>\<open>store.add(entry)\<close> for an entry without an \<^verbatim>\<open>id\<close> property.\<close>

definition store_add :: "engine \<Rightarrow> entry \<Rightarrow> database \<Rightarrow> DOMException + (nat \<times> database)" where
  "store_add eng e db =
     (case request_error eng of
        Some err \<Rightarrow> Inl err
      | None \<Rightarrow>
          if keygen db > max_key then Inl (engine_exn eng ''ConstraintError'')
          else Inr (keygen db,
                    db\<lparr>records := insort_key rec_id (stored (keygen db) e) (records db),
                       keygen := keygen db + 1\<rparr>))"

definition store_getAll :: "engine \<Rightarrow> database \<Rightarrow> DOMException + file_record list" where
  "store_getAll eng db =
     (case request_error eng of Some err \<Rightarrow> Inl err | None \<Rightarrow> Inr (records db))"

text \<open>
  A key is valid unless it is \<^verbatim>\<open>NaN\<close>; \<^verbatim>\<open>get\<close> and \<^verbatim>\<open>delete\<close> throw a \<^verbatim>\<open>DataError\<close>
  for an invalid key before any request is made, and the promise constructor turns the
  exception into a rejection.
\<close>

definition has_key :: "jsnum \<Rightarrow> file_record \<Rightarrow> bool" where
  "has_key k r = (k = Finite (of_nat (rec_id r)))"

definition store_get :: "engine \<Rightarrow> jsnum \<Rightarrow> database \<Rightarrow> DOMException + file_record option" where
  "store_get eng k db =
     (if k = NaN then Inl (engine_exn eng ''DataError'')
      else case request_error eng of
             Some err \<Rightarrow> Inl err
           | None \<Rightarrow> Inr (find (has_key k) (records db)))"

definition store_delete :: "engine \<Rightarrow> jsnum \<Rightarrow> database \<Rightarrow> DOMException + database" where
  "store_delete eng k db =
     (if k = NaN then Inl (engine_exn eng ''DataError'')
      else case request_error eng of
             Some err \<Rightarrow> Inl err
           | None \<Rightarrow> Inr (db\<lparr>records := filter (\<lambda>r. \<not> has_key k r) (records db)\<rparr>))"

definition store_clear :: "engine \<Rightarrow> database \<Rightarrow> DOMException + database" where
  "store_clear eng db =
     (case request_error eng of Some err \<Rightarrow> Inl err | None \<Rightarrow> Inr (db\<lparr>records := []\<rparr>))"

section \<open>The storage gateway (lines 21 to 75)\<close>

text \<open>
  Each wrapper awaits \<^verbatim>\<open>openDB()\<close> and then settles with its one request: \<open>Inl\<close> is the
  rejected promise, \<open>Inr\<close> the fulfilled one together with the store afterwards.
  \<open>now\<close> is the reading of \<^verbatim>\<open>Date.now()\<close> at line 26.
\<close>

definition addFileEntry :: "engine \<Rightarrow> int \<Rightarrow> File \<Rightarrow> database \<Rightarrow> DOMException + (nat \<times> database)" where
  "addFileEntry eng now f db =
     (case openDB eng db of
        Inl err \<Rightarrow> Inl err
      | Inr store \<Rightarrow>
          store_add eng
            \<lparr>entry_name = file_name f, entry_type = file_type f, entry_size = file_size f,
             entry_added = now, entry_blob = f\<rparr> store)"

definition listAllFiles :: "engine \<Rightarrow> database \<Rightarrow> DOMException + file_record list" where
  "listAllFiles eng db =
     (case openDB eng db of Inl err \<Rightarrow> Inl err | Inr store \<Rightarrow> store_getAll eng store)"

definition getFileById :: "engine \<Rightarrow> jsval \<Rightarrow> database \<Rightarrow> DOMException + file_record option" where
  "getFileById eng ident db =
     (case openDB eng db of
        Inl err \<Rightarrow> Inl err
      | Inr store \<Rightarrow> store_get eng (Number_js ident) store)"

definition deleteFileById :: "engine \<Rightarrow> jsval \<Rightarrow> database \<Rightarrow> DOMException + database" where
  "deleteFileById eng ident db =
     (case openDB eng db of
        Inl err \<Rightarrow> Inl err
      | Inr store \<Rightarrow> store_delete eng (Number_js ident) store)"

definition clearAll :: "engine \<Rightarrow> database \<Rightarrow> DOMException + database" where
  "clearAll eng db =
     (case openDB eng db of Inl err \<Rightarrow> Inl err | Inr store \<Rightarrow> store_clear eng store)"

section \<open>The page (lines 78 to 193)\<close>

subsection \<open>\<^verbatim>\<open>humanSize\<close>\<close>

text \<open>
  \<^verbatim>\<open>(n/d).toFixed(1)\<close> for a byte count \<open>n\<close> and \<open>d\<close> one of \<open>1024\<close>, \<open>1024\<^sup>2\<close>,
  \<open>1024\<^sup>3\<close>. Dividing a binary64 integer by a power of two is exact, so \<^verbatim>\<open>toFixed\<close>
  sees the quotient itself: it takes the integer \<open>m\<close> with \<open>m / 10\<close> nearest to it, the
  larger one of two, and prints \<open>m\<close> with a point before its last digit.
\<close>

definition toFixed1 :: "nat \<Rightarrow> nat \<Rightarrow> string" where
  "toFixed1 n d =
     (let m = (10 * n + d div 2) div d
      in Number_toString (m div 10) @ ''.'' @ Number_toString (m mod 10))"

definition humanSize :: "nat \<Rightarrow> string" where
  "humanSize n =
     (if n < 1024 then Number_toString n @ '' B''
      else if n < 1024 * 1024 then toFixed1 n 1024 @ '' KB''
      else if n < 1024 * 1024 * 1024 then toFixed1 n (1024 * 1024) @ '' MB''
      else toFixed1 n (1024 * 1024 * 1024) @ '' GB'')"

subsection \<open>\<^verbatim>\<open>createFileRow\<close> and \<^verbatim>\<open>renderList\<close>\<close>

text \<open>
  The state of the page: the database, the selection of the file input, the upload
  button, the children of \<^verbatim>\<open>#fileList\<close>, and what the handlers have shown so far
  (\<^verbatim>\<open>alert\<close>, \<^verbatim>\<open>confirm\<close>, \<^verbatim>\<open>console.error\<close>). A promise that rejects with nobody
  awaiting it is an unhandled rejection: the page shows nothing for it. The Download
  button of a row changes neither the store nor the list and is left out.
\<close>

record file_row =
  row_name :: string
  row_info :: string
  row_item :: file_record

datatype node = EmptyNote string | FileRow file_row

record page =
  idb :: database
  fileInput_files :: "File list"
  uploadBtn_disabled :: bool
  uploadBtn_textContent :: string
  fileList :: "node list"
  alerts :: "string list"
  confirms :: "string list"
  console_errors :: "DOMException list"
  unhandled_rejections :: "DOMException list"

text \<open>
  What the surroundings decide during one handler: the engine's behaviour and the clock
  reading in the \<open>i\<close>-th \<^verbatim>\<open>addFileEntry\<close> of the upload loop, the engine's behaviour
  in \<^verbatim>\<open>listAllFiles\<close> and in the delete or clear request, the user's answer to
  \<^verbatim>\<open>confirm\<close>, and the locale's rendering of a time stamp.
\<close>

record env =
  add_engine :: "nat \<Rightarrow> engine"
  add_now :: "nat \<Rightarrow> int"
  list_engine :: engine
  row_engine :: engine
  confirm_answer :: bool
  toLocaleString :: "int \<Rightarrow> string"

definition bullet :: string where
  "bullet = '' '' @ [char_of (0xE2 :: nat), char_of (0x80 :: nat), char_of (0xA2 :: nat)] @ '' ''"

definition createFileRow :: "env \<Rightarrow> file_record \<Rightarrow> node" where
  "createFileRow env item =
     FileRow \<lparr>row_name = rec_name item,
              row_info = humanSize (rec_size item) @ bullet @ toLocaleString env (rec_added item),
              row_item = item\<rparr>"

text \<open>
  \<^verbatim>\<open>all.sort((a,b)=>b.added - a.added)\<close>: \<^verbatim>\<open>Array.prototype.sort\<close> is stable, and an
  element goes before another exactly when the comparator says so; insertion from the
  right end computes that order.
\<close>

definition by_added :: "file_record \<Rightarrow> file_record \<Rightarrow> int" where
  "by_added a b = rec_added b - rec_added a"

fun insert_by :: "('a \<Rightarrow> 'a \<Rightarrow> int) \<Rightarrow> 'a \<Rightarrow> 'a list \<Rightarrow> 'a list" where
  "insert_by cmp x [] = [x]"
| "insert_by cmp x (y # ys) = (if cmp x y \<le> 0 then x # y # ys else y # insert_by cmp x ys)"

definition Array_sort :: "('a \<Rightarrow> 'a \<Rightarrow> int) \<Rightarrow> 'a list \<Rightarrow> 'a list" where
  "Array_sort cmp xs = foldr (insert_by cmp) xs []"

definition renderList :: "env \<Rightarrow> page \<Rightarrow> DOMException option \<times> page" where
  "renderList env p =
     (let p0 = p\<lparr>fileList := []\<rparr> in
      case listAllFiles (list_engine env) (idb p0) of
        Inl err \<Rightarrow> (Some err, p0)
      | Inr all \<Rightarrow>
          if all = [] then
            (None, p0\<lparr>fileList := [EmptyNote ''No files stored. Upload using the control above.'']\<rparr>)
          else
            (None, p0\<lparr>fileList := map (createFileRow env) (Array_sort by_added all)\<rparr>))"

text \<open>A call of an async function whose promise nobody awaits.\<close>

definition unawaited :: "DOMException option \<times> page \<Rightarrow> page" where
  "unawaited r =
     (case r of
        (None, p) \<Rightarrow> p
      | (Some err, p) \<Rightarrow> p\<lparr>unhandled_rejections := unhandled_rejections p @ [err]\<rparr>)"

subsection \<open>The upload handler (lines 165 to 186)\<close>

text \<open>The loop of lines 172 to 176, with its index; it stops at the first rejection.\<close>

fun upload_loop :: "env \<Rightarrow> nat \<Rightarrow> File list \<Rightarrow> database \<Rightarrow> database \<times> DOMException option" where
  "upload_loop env i [] db = (db, None)"
| "upload_loop env i (f # fs) db =
     (case addFileEntry (add_engine env i) (add_now env i) f db of
        Inl err \<Rightarrow> (db, Some err)
      | Inr (k, db') \<Rightarrow> upload_loop env (Suc i) fs db')"

definition upload_begin :: "page \<Rightarrow> page" where
  "upload_begin p = p\<lparr>uploadBtn_disabled := True, uploadBtn_textContent := ''Uploading...''\<rparr>"

definition upload_catch :: "DOMException \<Rightarrow> page \<Rightarrow> page" where
  "upload_catch err p =
     p\<lparr>console_errors := console_errors p @ [err],
       alerts := alerts p @
         [''Upload failed: '' @ (if exn_message err \<noteq> [] then exn_message err else exn_toString err)]\<rparr>"

definition upload_try :: "env \<Rightarrow> page \<Rightarrow> page" where
  "upload_try env p =
     (case upload_loop env 0 (fileInput_files p) (idb p) of
        (db', Some err) \<Rightarrow> upload_catch err (p\<lparr>idb := db'\<rparr>)
      | (db', None) \<Rightarrow>
          (case renderList env (p\<lparr>idb := db', fileInput_files := []\<rparr>) of
             (Some err, p') \<Rightarrow> upload_catch err p'
           | (None, p') \<Rightarrow> p'))"

definition upload_finally :: "page \<Rightarrow> page" where
  "upload_finally p = p\<lparr>uploadBtn_disabled := False, uploadBtn_textContent := ''Upload''\<rparr>"

text \<open>
  An async handler hands control back at each \<^verbatim>\<open>await\<close>, and the page is then what the
  user and every other handler see. \<open>upload_loop_waits\<close> lists the page during each
  \<^verbatim>\<open>await addFileEntry(f)\<close> of the loop (line 175), in order; \<open>upload_waits\<close> adds the
  page during \<^verbatim>\<open>await renderList()\<close> (line 178), when the selection and the list have been
  cleared and \<^verbatim>\<open>listAllFiles()\<close> is pending. \<open>uploadBtn_run\<close> is the whole run of the
  handler: the pages at its awaits, then the page it ends with. The handler as a function
  of the page, \<open>uploadBtn_click\<close>, is the last page of the run.
\<close>

fun upload_loop_waits :: "env \<Rightarrow> nat \<Rightarrow> File list \<Rightarrow> page \<Rightarrow> page list" where
  "upload_loop_waits env i [] p = []"
| "upload_loop_waits env i (f # fs) p =
     p # (case addFileEntry (add_engine env i) (add_now env i) f (idb p) of
            Inl err \<Rightarrow> []
          | Inr (k, db') \<Rightarrow> upload_loop_waits env (Suc i) fs (p\<lparr>idb := db'\<rparr>))"

definition upload_waits :: "env \<Rightarrow> page \<Rightarrow> page list" where
  "upload_waits env p =
     upload_loop_waits env 0 (fileInput_files p) p @
     (case upload_loop env 0 (fileInput_files p) (idb p) of
        (db', Some err) \<Rightarrow> []
      | (db', None) \<Rightarrow> [p\<lparr>idb := db', fileInput_files := [], fileList := []\<rparr>])"

definition uploadBtn_run :: "env \<Rightarrow> page \<Rightarrow> page list" where
  "uploadBtn_run env p =
     (if fileInput_files p = [] then [p\<lparr>alerts := alerts p @ [''Select at least one file'']\<rparr>]
      else upload_waits env (upload_begin p) @ [upload_finally (upload_try env (upload_begin p))])"

definition uploadBtn_click :: "env \<Rightarrow> page \<Rightarrow> page" where
  "uploadBtn_click env p = last (uploadBtn_run env p)"

subsection \<open>Delete, refresh and clear-all (lines 134 to 138 and 188 to 193)\<close>

definition delBtn_click :: "env \<Rightarrow> file_record \<Rightarrow> page \<Rightarrow> page" where
  "delBtn_click env item p =
     (let p1 = p\<lparr>confirms := confirms p @
                  [''Delete file '' @ [char_of (0x22 :: nat)] @ rec_name item @ [char_of (0x22 :: nat)] @ ''?'']\<rparr>
      in if \<not> confirm_answer env then p1
         else case deleteFileById (row_engine env) (JNum (Finite (of_nat (rec_id item)))) (idb p1) of
                Inl err \<Rightarrow> p1\<lparr>unhandled_rejections := unhandled_rejections p1 @ [err]\<rparr>
              | Inr db' \<Rightarrow> unawaited (renderList env (p1\<lparr>idb := db'\<rparr>)))"

definition refreshBtn_click :: "env \<Rightarrow> page \<Rightarrow> page" where
  "refreshBtn_click env p = unawaited (renderList env p)"

definition clearAllBtn_click :: "env \<Rightarrow> page \<Rightarrow> page" where
  "clearAllBtn_click env p =
     (let p1 = p\<lparr>confirms := confirms p @ [''Clear ALL stored files? This cannot be undone.'']\<rparr>
      in if \<not> confirm_answer env then p1
         else case clearAll (row_engine env) (idb p1) of
                Inl err \<Rightarrow> p1\<lparr>unhandled_rejections := unhandled_rejections p1 @ [err]\<rparr>
              | Inr db' \<Rightarrow> unawaited (renderList env (p1\<lparr>idb := db'\<rparr>)))"

section \<open>Reachable stores\<close>

text \<open>
  Every store that the wrappers can produce from \<open>fresh_db\<close> has its records in
  strictly ascending key order, all keys positive and below the generator's current
  number, and the generator within its range.
\<close>

definition wf_db :: "database \<Rightarrow> bool" where
  "wf_db db =
     (sorted (map rec_id (records db)) \<and> distinct (map rec_id (records db)) \<and>
      list_all (\<lambda>r. 1 \<le> rec_id r \<and> rec_id r < keygen db) (records db) \<and>
      1 \<le> keygen db \<and> keygen db \<le> max_key + 1)"

section \<open>Notions used in the statements\<close>

text \<open>The rejection that the engine imposes on a wrapper, if any: \<^verbatim>\<open>openDB\<close> is awaited first.\<close>

definition engine_failure :: "engine \<Rightarrow> DOMException option" where
  "engine_failure eng = (case open_error eng of Some e \<Rightarrow> Some e | None \<Rightarrow> request_error eng)"

text \<open>
  The rejection of \<^verbatim>\<open>addFileEntry\<close>, if any, when the key generator stands at \<open>g\<close>: the
  engine's own failure, or else the exhausted generator.
\<close>

definition add_rejection :: "engine \<Rightarrow> nat \<Rightarrow> DOMException option" where
  "add_rejection eng g =
     (case engine_failure eng of
        Some e \<Rightarrow> Some e
      | None \<Rightarrow> if g > max_key then Some (engine_exn eng ''ConstraintError'') else None)"

text \<open>The record that a successful \<^verbatim>\<open>addFileEntry\<close> of \<open>f\<close> at time \<open>now\<close> stores under key \<open>k\<close>.\<close>

definition record_of :: "nat \<Rightarrow> int \<Rightarrow> File \<Rightarrow> file_record" where
  "record_of k now f =
     \<lparr>rec_id = k, rec_name = file_name f, rec_type = file_type f, rec_size = file_size f,
      rec_added = now, rec_blob = f\<rparr>"

text \<open>
  The records of an upload that meets no failure: file number \<open>i\<close>, \<open>i + 1\<close>, ... of the
  selection under the keys \<open>k\<close>, \<open>k + 1\<close>, ...
\<close>

fun new_records :: "env \<Rightarrow> nat \<Rightarrow> nat \<Rightarrow> File list \<Rightarrow> file_record list" where
  "new_records env i k [] = []"
| "new_records env i k (f # fs) = record_of k (add_now env i) f # new_records env (Suc i) (Suc k) fs"

text \<open>The records behind the rows of the rendered list, from top to bottom.\<close>

fun node_items :: "node list \<Rightarrow> file_record list" where
  "node_items [] = []"
| "node_items (EmptyNote t # ns) = node_items ns"
| "node_items (FileRow r # ns) = row_item r # node_items ns"

text \<open>
  \<open>m\<close> tenths printed with one decimal place, and what it means that \<open>m\<close> tenths is
  the quotient \<open>n / d\<close> rounded to one decimal place.
\<close>

definition one_decimal :: "nat \<Rightarrow> string" where
  "one_decimal m = Number_toString (m div 10) @ ''.'' @ Number_toString (m mod 10)"

definition nearest_tenth :: "nat \<Rightarrow> nat \<Rightarrow> nat \<Rightarrow> bool" where
  "nearest_tenth m n d = (\<bar>of_nat m / 10 - of_nat n / of_nat d\<bar> \<le> (1 / 20 :: rat))"

text \<open>A small store and a small selection, for the concrete instances below.\<close>

definition a_txt :: File where
  "a_txt = \<lparr>file_name = ''a.txt'', file_type = ''text/plain'', file_size = 10,
            file_bytes = ''0123456789''\<rparr>"

definition b_bin :: File where
  "b_bin = \<lparr>file_name = ''b.bin'', file_type = [], file_size = 3, file_bytes = ''abc''\<rparr>"

definition c_png :: File where
  "c_png = \<lparr>file_name = ''c.png'', file_type = ''image/png'', file_size = 4,
            file_bytes = ''.PNG''\<rparr>"

definition two_files :: database where
  "two_files = \<lparr>records = [record_of 1 100 a_txt, record_of 2 200 b_bin], keygen = 3\<rparr>"

definition quiet :: engine where
  "quiet = no_fault (\<lambda>n. [])"

text \<open>
  Surroundings in which nothing fails and the clock reads 100, 200, 300, ...; an engine
  whose requests fail; surroundings in which the second \<^verbatim>\<open>addFileEntry\<close> of an upload
  fails; a page just loaded on an empty database, and the same with three files selected.
\<close>

definition calm :: env where
  "calm = \<lparr>add_engine = (\<lambda>i. quiet), add_now = (\<lambda>i. 100 * (int i + 1)), list_engine = quiet,
           row_engine = quiet, confirm_answer = True, toLocaleString = (\<lambda>t. [])\<rparr>"

definition disk_full :: DOMException where
  "disk_full = \<lparr>exn_name = ''QuotaExceededError'', exn_message = ''disk full''\<rparr>"

definition failing :: engine where
  "failing = \<lparr>open_error = None, request_error = Some disk_full, message_for = (\<lambda>n. [])\<rparr>"

definition second_fails :: env where
  "second_fails = calm\<lparr>add_engine := (\<lambda>i. if i = 1 then failing else quiet)\<rparr>"

definition blank :: page where
  "blank = \<lparr>idb = fresh_db, fileInput_files = [], uploadBtn_disabled = False,
            uploadBtn_textContent = ''Upload'', fileList = [], alerts = [], confirms = [],
            console_errors = [], unhandled_rejections = []\<rparr>"

definition three_selected :: page where
  "three_selected = blank\<lparr>fileInput_files := [a_txt, b_bin, c_png]\<rparr>"

section \<open>Decimal digits and \<^verbatim>\<open>humanSize\<close>\<close>

lemma digit_char_code: "d < 10 \<Longrightarrow> of_char (digit_char d) = 48 + d"
proof -
  assume "d < 10"
  then have "d = 0 \<or> d = 1 \<or> d = 2 \<or> d = 3 \<or> d = 4 \<or> d = 5 \<or> d = 6 \<or> d = 7 \<or> d = 8 \<or> d = 9"
    by arith
  then show ?thesis by (elim disjE) (simp_all add: digit_char_def)
qed


lemma round_tenth:
  assumes "0 < d" "even d"
  shows "nearest_tenth ((10 * n + d div 2) div d) n d"
proof -
  define m where "m = (10 * n + d div 2) div d"
  obtain h where h: "d = 2 * h" using assms(2) by (auto elim: evenE)
  have hh: "d div 2 = h" unfolding h by simp
  have r: "(10 * n + h) mod d < d" using assms(1) by simp
  have q: "d * m + (10 * n + h) mod d = 10 * n + h"
    unfolding m_def hh by (rule mult_div_mod_eq)
  have lo: "d * m \<le> 10 * n + h" using q by linarith
  have hi: "10 * n + h < d * m + d" using q r by linarith
  have dq: "(of_nat d :: rat) > 0" using assms(1) by simp
  have a: "(of_nat d :: rat) * of_nat m \<le> 10 * of_nat n + of_nat h"
    using lo by (metis of_nat_mult of_nat_add of_nat_le_iff of_nat_numeral)
  have b: "(10 * of_nat n + of_nat h :: rat) < of_nat d * of_nat m + of_nat d"
    using hi by (metis of_nat_mult of_nat_add of_nat_less_iff of_nat_numeral)
  have hd: "(of_nat d :: rat) = 2 * of_nat h" unfolding h by simp
  have u: "of_nat m / 10 - of_nat n / of_nat d \<le> (1 / 20 :: rat)"
    using a dq unfolding hd by (simp add: field_simps)
  have l: "of_nat n / of_nat d - of_nat m / 10 \<le> (1 / 20 :: rat)"
    using b dq unfolding hd by (simp add: field_simps)
  have "\<bar>of_nat m / 10 - of_nat n / of_nat d\<bar> \<le> (1 / 20 :: rat)"
    using u l by linarith
  then show ?thesis unfolding nearest_tenth_def m_def .
qed


lemma toFixed1_nearest:
  assumes "0 < d" "even d"
  shows "\<exists>m. toFixed1 n d = one_decimal m \<and> nearest_tenth m n d"
  using round_tenth [OF assms, of n] unfolding toFixed1_def one_decimal_def Let_def by blast

lemma humanSize_10: "humanSize 10 = ''10 B''"
  by (simp add: humanSize_def Number_toString.simps digit_char_def)

lemma humanSize_2048: "humanSize 2048 = ''2.0 KB''"
  by (simp add: humanSize_def toFixed1_def Number_toString.simps digit_char_def)

lemma toFixed1_KB: "\<exists>m. toFixed1 n 1024 = one_decimal m \<and> nearest_tenth m n 1024"
  by (rule toFixed1_nearest) simp_all

lemma toFixed1_MB:
  "\<exists>m. toFixed1 n (1024 * 1024) = one_decimal m \<and> nearest_tenth m n (1024 * 1024)"
  by (rule toFixed1_nearest) simp_all

lemma toFixed1_GB:
  "\<exists>m. toFixed1 n (1024 * 1024 * 1024) = one_decimal m \<and>
       nearest_tenth m n (1024 * 1024 * 1024)"
  by (rule toFixed1_nearest) simp_all

text \<open>
  C6. For every byte count \<open>n\<close>, \<^verbatim>\<open>humanSize\<close> prints the bytes themselves below 1024,
  kilobytes below \<open>1024\<^sup>2\<close>, megabytes below \<open>1024\<^sup>3\<close> and gigabytes from there on, the
  last three as the quotient rounded to one decimal place (at most one twentieth away
  from it); \<^verbatim>\<open>humanSize(10)\<close> is \<^verbatim>\<open>"10 B"\<close> and \<^verbatim>\<open>humanSize(2048)\<close> is \<^verbatim>\<open>"2.0 KB"\<close>.
\<close>

theorem humanSize_units:
  "(n < 1024 \<longrightarrow> humanSize n = Number_toString n @ '' B'') \<and>
   (1024 \<le> n \<and> n < 1024 * 1024 \<longrightarrow>
      (\<exists>m. humanSize n = one_decimal m @ '' KB'' \<and> nearest_tenth m n 1024)) \<and>
   (1024 * 1024 \<le> n \<and> n < 1024 * 1024 * 1024 \<longrightarrow>
      (\<exists>m. humanSize n = one_decimal m @ '' MB'' \<and> nearest_tenth m n (1024 * 1024))) \<and>
   (1024 * 1024 * 1024 \<le> n \<longrightarrow>
      (\<exists>m. humanSize n = one_decimal m @ '' GB'' \<and>
           nearest_tenth m n (1024 * 1024 * 1024))) \<and>
   humanSize 10 = ''10 B'' \<and> humanSize 2048 = ''2.0 KB''"
proof -
  have c1: "n < 1024 \<longrightarrow> humanSize n = Number_toString n @ '' B''"
    by (simp add: humanSize_def)
  have c2: "1024 \<le> n \<and> n < 1024 * 1024 \<longrightarrow>
      (\<exists>m. humanSize n = one_decimal m @ '' KB'' \<and> nearest_tenth m n 1024)"
  proof
    assume "1024 \<le> n \<and> n < 1024 * 1024"
    then have "humanSize n = toFixed1 n 1024 @ '' KB''" by (simp add: humanSize_def)
    then show "\<exists>m. humanSize n = one_decimal m @ '' KB'' \<and> nearest_tenth m n 1024"
      using toFixed1_KB [of n] by force
  qed
  have c3: "1024 * 1024 \<le> n \<and> n < 1024 * 1024 * 1024 \<longrightarrow>
      (\<exists>m. humanSize n = one_decimal m @ '' MB'' \<and> nearest_tenth m n (1024 * 1024))"
  proof
    assume "1024 * 1024 \<le> n \<and> n < 1024 * 1024 * 1024"
    then have "humanSize n = toFixed1 n (1024 * 1024) @ '' MB''" by (simp add: humanSize_def)
    then show "\<exists>m. humanSize n = one_decimal m @ '' MB'' \<and> nearest_tenth m n (1024 * 1024)"
      using toFixed1_MB [of n] by force
  qed
  have c4: "1024 * 1024 * 1024 \<le> n \<longrightarrow>
      (\<exists>m. humanSize n = one_decimal m @ '' GB'' \<and>
           nearest_tenth m n (1024 * 1024 * 1024))"
  proof
    assume "1024 * 1024 * 1024 \<le> n"
    then have "humanSize n = toFixed1 n (1024 * 1024 * 1024) @ '' GB''"
      by (simp add: humanSize_def)
    then show "\<exists>m. humanSize n = one_decimal m @ '' GB'' \<and>
           nearest_tenth m n (1024 * 1024 * 1024)"
      using toFixed1_GB [of n] by force
  qed
  show ?thesis by (intro conjI c1 c2 c3 c4 humanSize_10 humanSize_2048)
qed

theorem humanSize_units_witness:
  "(1024::nat) \<le> 2048 \<and> (2048::nat) < 1024 * 1024 \<and>
   (\<exists>m. humanSize 2048 = one_decimal m @ '' KB'' \<and> nearest_tenth m 2048 1024)"
proof -
  have a: "(1024::nat) \<le> 2048 \<and> (2048::nat) < 1024 * 1024" by simp
  show ?thesis using a conjunct1 [OF conjunct2 [OF humanSize_units [of 2048]]] by blast
qed

section \<open>Properties of the storage gateway\<close>

lemma engine_failure_None:
  "engine_failure eng = None \<longleftrightarrow> open_error eng = None \<and> request_error eng = None"
  by (simp add: engine_failure_def split: option.splits)

lemma engine_failure_no_fault [simp]: "engine_failure (no_fault msg) = None"
  by (simp add: engine_failure_def no_fault_def)

lemma has_key_nat [simp]: "has_key (Finite (of_nat k)) r \<longleftrightarrow> rec_id r = k"
  by (auto simp: has_key_def)

lemma has_key_int [simp]: "has_key (Finite (of_int k)) r \<longleftrightarrow> int (rec_id r) = k"
proof -
  have "(of_int k :: rat) = of_nat (rec_id r) \<longleftrightarrow> k = int (rec_id r)"
    by (metis of_int_of_nat_eq of_int_eq_iff)
  then show ?thesis by (auto simp: has_key_def)
qed

lemma failing_wrapper:
  assumes "engine_failure eng = Some e"
  shows "addFileEntry eng now f db = Inl e" "listAllFiles eng db = Inl e" "clearAll eng db = Inl e"
  using assms
  by (auto simp: engine_failure_def addFileEntry_def listAllFiles_def clearAll_def openDB_def
      store_add_def store_getAll_def store_clear_def split: option.splits)

lemma listAllFiles_ok: "engine_failure eng = None \<Longrightarrow> listAllFiles eng db = Inr (records db)"
  by (simp add: engine_failure_None listAllFiles_def openDB_def store_getAll_def)

lemma clearAll_ok: "engine_failure eng = None \<Longrightarrow> clearAll eng db = Inr (db\<lparr>records := []\<rparr>)"
  by (simp add: engine_failure_None clearAll_def openDB_def store_clear_def)

lemma deleteFileById_ok:
  "engine_failure eng = None \<Longrightarrow> Number_js v \<noteq> NaN \<Longrightarrow>
   deleteFileById eng v db = Inr (db\<lparr>records := filter (\<lambda>r. \<not> has_key (Number_js v) r) (records db)\<rparr>)"
  by (simp add: engine_failure_None deleteFileById_def openDB_def store_delete_def)

lemma getFileById_ok:
  "engine_failure eng = None \<Longrightarrow> Number_js v \<noteq> NaN \<Longrightarrow>
   getFileById eng v db = Inr (find (has_key (Number_js v)) (records db))"
  by (simp add: engine_failure_None getFileById_def openDB_def store_get_def)

lemma insort_key_last:
  "list_all (\<lambda>x. f x < f a) xs \<Longrightarrow> insort_key f a xs = xs @ [a]"
  by (induction xs) auto

lemma addFileEntry_ok:
  assumes "engine_failure eng = None" "keygen db \<le> max_key"
    and "list_all (\<lambda>r. rec_id r < keygen db) (records db)"
  shows "addFileEntry eng now f db =
     Inr (keygen db, db\<lparr>records := records db @ [record_of (keygen db) now f],
                        keygen := keygen db + 1\<rparr>)"
proof -
  have "rec_id (record_of (keygen db) now f) = keygen db" by (simp add: record_of_def)
  then have "insort_key rec_id (record_of (keygen db) now f) (records db) =
      records db @ [record_of (keygen db) now f]"
    using assms(3) by (intro insort_key_last) simp
  then show ?thesis using assms(1,2)
    by (simp add: engine_failure_None addFileEntry_def openDB_def store_add_def stored_def
        record_of_def)
qed

text \<open>
  C3. Whatever the store holds, \<^verbatim>\<open>clearAll()\<close> followed by \<^verbatim>\<open>listAllFiles()\<close> gives the
  empty list, when the engine reports no failure.
\<close>

theorem clearAll_then_list_empty:
  "\<exists>db'. clearAll (no_fault msg) db = Inr db' \<and> listAllFiles (no_fault msg) db' = Inr []"
  by (simp add: clearAll_ok listAllFiles_ok)

lemma length_filter_distinct:
  "distinct (map f xs) \<Longrightarrow> k \<in> f ` set xs \<Longrightarrow> length (filter (\<lambda>r. f r \<noteq> k) xs) + 1 = length xs"
proof (induction xs)
  case Nil
  then show ?case by simp
next
  case (Cons x xs)
  show ?case
  proof (cases "f x = k")
    case True
    then have "k \<notin> f ` set xs" using Cons.prems(1) by auto
    then have "filter (\<lambda>r. f r \<noteq> k) xs = xs" by (auto simp: filter_id_conv)
    then show ?thesis using True by simp
  next
    case False
    then show ?thesis using Cons by auto
  qed
qed

text \<open>
  C2. In a reachable store, \<^verbatim>\<open>deleteFileById(k)\<close> for a key \<open>k\<close> that is present removes
  the one record with that key and keeps every other record, in order; the key generator
  is untouched, and \<^verbatim>\<open>getFileById(k)\<close> afterwards is fulfilled with \<^verbatim>\<open>undefined\<close>.
\<close>

theorem deleteFileById_removes_exactly:
  assumes "wf_db db" and "k \<in> rec_id ` set (records db)" and "engine_failure eng = None"
  shows "\<exists>db'. deleteFileById eng (JNum (Finite (of_nat k))) db = Inr db' \<and>
           records db' = filter (\<lambda>r. rec_id r \<noteq> k) (records db) \<and>
           length (records db') + 1 = length (records db) \<and>
           keygen db' = keygen db \<and>
           getFileById eng (JNum (Finite (of_nat k))) db' = Inr None"
proof -
  let ?db' = "db\<lparr>records := filter (\<lambda>r. rec_id r \<noteq> k) (records db)\<rparr>"
  have d: "deleteFileById eng (JNum (Finite (of_nat k))) db = Inr ?db'"
    using assms(3) by (simp add: deleteFileById_ok)
  have "distinct (map rec_id (records db))" using assms(1) by (simp add: wf_db_def)
  then have l: "length (records ?db') + 1 = length (records db)"
    using length_filter_distinct [of rec_id "records db" k] assms(2) by simp
  have g: "getFileById eng (JNum (Finite (of_nat k))) ?db' = Inr None"
    using assms(3) by (simp add: getFileById_ok find_None_iff)
  show ?thesis using d l g by simp
qed

theorem deleteFileById_removes_exactly_witness:
  "wf_db two_files \<and> 1 \<in> rec_id ` set (records two_files) \<and> engine_failure quiet = None \<and>
   (\<exists>db'. deleteFileById quiet (JNum (Finite (of_nat 1))) two_files = Inr db' \<and>
          records db' = filter (\<lambda>r. rec_id r \<noteq> 1) (records two_files) \<and>
          length (records db') + 1 = length (records two_files) \<and>
          keygen db' = keygen two_files \<and>
          getFileById quiet (JNum (Finite (of_nat 1))) db' = Inr None)"
proof -
  have h1: "wf_db two_files"
    by (simp add: wf_db_def two_files_def record_of_def max_key_def)
  have h2: "1 \<in> rec_id ` set (records two_files)"
    by (simp add: two_files_def record_of_def)
  have h3: "engine_failure quiet = None"
    by (simp add: quiet_def)
  show ?thesis
    using h1 h2 h3 deleteFileById_removes_exactly [OF h1 h2 h3] by blast
qed

text \<open>
  C4. For every integer \<open>k\<close>, \<^verbatim>\<open>deleteFileById(k)\<close> is fulfilled when the engine reports
  no failure, whether or not a record has that key; a second call with the same key is
  fulfilled too and leaves the store as the first call left it; and when no record has
  the key, the first call already leaves the store as it was.
\<close>

theorem deleteFileById_absent_idempotent:
  assumes "engine_failure eng = None"
  shows "\<exists>db1. deleteFileById eng (JNum (Finite (of_int k))) db = Inr db1 \<and>
           deleteFileById eng (JNum (Finite (of_int k))) db1 = Inr db1 \<and>
           ((\<forall>r \<in> set (records db). int (rec_id r) \<noteq> k) \<longrightarrow> db1 = db)"
proof -
  let ?db1 = "db\<lparr>records := filter (\<lambda>r. int (rec_id r) \<noteq> k) (records db)\<rparr>"
  have a: "deleteFileById eng (JNum (Finite (of_int k))) db = Inr ?db1"
    using assms by (simp add: deleteFileById_ok)
  have b: "deleteFileById eng (JNum (Finite (of_int k))) ?db1 = Inr ?db1"
    using assms by (simp add: deleteFileById_ok)
  have c: "(\<forall>r \<in> set (records db). int (rec_id r) \<noteq> k) \<longrightarrow> ?db1 = db"
    by (simp add: filter_id_conv)
  show ?thesis using a b c by blast
qed

theorem deleteFileById_absent_idempotent_witness:
  "engine_failure quiet = None \<and> list_all (\<lambda>r. int (rec_id r) \<noteq> 7) (records two_files) \<and>
   deleteFileById quiet (JNum (Finite (of_int 7))) two_files = Inr two_files \<and>
   (\<exists>db1. deleteFileById quiet (JNum (Finite (of_int 7))) two_files = Inr db1 \<and>
          deleteFileById quiet (JNum (Finite (of_int 7))) db1 = Inr db1)"
proof -
  have h1: "engine_failure quiet = None"
    by (simp add: quiet_def)
  have h2: "\<forall>r \<in> set (records two_files). int (rec_id r) \<noteq> 7"
    by (simp add: two_files_def record_of_def)
  have h3: "list_all (\<lambda>r. int (rec_id r) \<noteq> 7) (records two_files)"
    using h2 by (simp add: list_all_iff)
  show ?thesis
    using h1 h2 h3 deleteFileById_absent_idempotent [OF h1, of 7 two_files] by metis
qed

section \<open>The invariant of the store\<close>

lemma wf_fresh_db: "wf_db fresh_db"
  by (simp add: wf_db_def fresh_db_def max_key_def)

lemma wf_addFileEntry:
  assumes "wf_db db" and "addFileEntry eng now f db = Inr (k, db')"
  shows "wf_db db'"
proof -
  have ok: "engine_failure eng = None"
    using assms(2) failing_wrapper(1) [of eng _ now f db] by (cases "engine_failure eng") auto
  have room: "keygen db \<le> max_key"
    using assms(2) ok
    by (auto simp: engine_failure_None addFileEntry_def openDB_def store_add_def split: if_splits)
  have below: "list_all (\<lambda>r. rec_id r < keygen db) (records db)"
    using assms(1) by (auto simp: wf_db_def list_all_iff)
  have "db' = db\<lparr>records := records db @ [record_of (keygen db) now f], keygen := keygen db + 1\<rparr>"
    using addFileEntry_ok [OF ok room below, of now f] assms(2) by simp
  then show ?thesis using assms(1) room
    by (auto simp: wf_db_def list_all_iff record_of_def sorted_append less_imp_le)
qed

lemma wf_deleteFileById:
  assumes "wf_db db" and "deleteFileById eng v db = Inr db'"
  shows "wf_db db'"
proof -
  have "db' = db\<lparr>records := filter (\<lambda>r. \<not> has_key (Number_js v) r) (records db)\<rparr>"
    using assms(2)
    by (auto simp: deleteFileById_def openDB_def store_delete_def split: option.splits if_splits)
  then show ?thesis using assms(1)
    by (auto simp: wf_db_def list_all_iff sorted_filter distinct_map_filter)
qed

lemma wf_clearAll:
  assumes "wf_db db" and "clearAll eng db = Inr db'"
  shows "wf_db db'"
proof -
  have "db' = db\<lparr>records := []\<rparr>"
    using assms(2) by (auto simp: clearAll_def openDB_def store_clear_def split: option.splits)
  then show ?thesis using assms(1) by (simp add: wf_db_def)
qed

section \<open>\<^verbatim>\<open>Number\<close> on the string form of a key\<close>

lemma is_digit_digit_char: "d < 10 \<Longrightarrow> is_digit (digit_char d)"
  by (simp add: is_digit_def digit_char_code)

lemma digit_val_digit_char: "d < 10 \<Longrightarrow> digit_val (digit_char d) = d"
  by (simp add: digit_val_def digit_char_code)

lemma Number_toString_digits: "list_all is_digit (Number_toString n) \<and> Number_toString n \<noteq> []"
proof (induction n rule: Number_toString.induct)
  case (1 n)
  show ?case
  proof (cases "n < 10")
    case True
    then show ?thesis by (subst (1 2) Number_toString.simps) (simp add: is_digit_digit_char)
  next
    case False
    then show ?thesis using 1
      by (subst (1 2) Number_toString.simps) (simp add: is_digit_digit_char)
  qed
qed

lemma digits_val_snoc: "digits_val (s @ [c]) = 10 * digits_val s + digit_val c"
  by (simp add: digits_val_def)

lemma digits_val_Number_toString: "digits_val (Number_toString n) = n"
proof (induction n rule: Number_toString.induct)
  case (1 n)
  show ?case
  proof (cases "n < 10")
    case True
    then show ?thesis
      by (subst Number_toString.simps) (simp add: digits_val_def digit_val_digit_char)
  next
    case False
    then have "digits_val (Number_toString (n div 10)) = n div 10" using 1 by simp
    then show ?thesis using False
      by (subst Number_toString.simps) (simp add: digits_val_snoc digit_val_digit_char)
  qed
qed

lemma digit_not_ws: "is_digit c \<Longrightarrow> \<not> is_ws c"
  by (auto simp: is_digit_def is_ws_def)

lemma trim_digits:
  assumes "list_all is_digit s" "s \<noteq> []"
  shows "trim s = s"
proof -
  have "\<not> is_ws (hd s)" using assms by (cases s) (auto simp: digit_not_ws)
  then have a: "dropWhile is_ws s = s" using assms(2) by (cases s) auto
  have "is_digit (last s)" using assms by (simp add: list_all_iff)
  then have "\<not> is_ws (hd (rev s))" using assms(2) by (simp add: hd_rev digit_not_ws)
  then have b: "dropWhile is_ws (rev s) = rev s" using assms(2) by (cases "rev s") auto
  show ?thesis by (simp add: trim_def a b)
qed

lemma digits_no_char:
  assumes "list_all is_digit s" "\<not> is_digit c"
  shows "c \<notin> set s"
  using assms by (auto simp: list_all_iff)

lemma take2_digits:
  assumes "list_all is_digit s" "\<not> is_digit c"
  shows "take 2 s \<noteq> [a, c]"
proof
  assume "take 2 s = [a, c]"
  then have "c \<in> set (take 2 s)" by simp
  then have "c \<in> set s" by (rule in_set_takeD)
  then show False using digits_no_char [OF assms] by simp
qed

lemma unsigned_decimal_digits:
  assumes "list_all is_digit s" "s \<noteq> []"
  shows "unsigned_decimal s = Finite (of_nat (digits_val s))"
proof -
  have "\<not> is_digit (CHR ''I'')" by (simp add: is_digit_def)
  then have "CHR ''I'' \<notin> set s" using assms(1) by (rule digits_no_char [rotated])
  then have i: "s \<noteq> ''Infinity''" by auto
  have t: "takeWhile is_digit s = s" using assms(1) by (simp add: list_all_iff)
  have d: "dropWhile is_digit s = []" using assms(1) by (simp add: list_all_iff)
  show ?thesis using i assms(2) by (simp add: unsigned_decimal_def t d)
qed

lemma StringToNumber_digits:
  assumes "list_all is_digit s" "s \<noteq> []"
  shows "StringToNumber s = Finite (of_nat (digits_val s))"
proof -
  have t: "trim s = s" using assms by (rule trim_digits)
  have x: "take 2 s \<noteq> ''0x''" "take 2 s \<noteq> ''0X''" "take 2 s \<noteq> ''0o''" "take 2 s \<noteq> ''0O''"
    "take 2 s \<noteq> ''0b''" "take 2 s \<noteq> ''0B''"
    by (rule take2_digits [OF assms(1)], simp add: is_digit_def)+
  have "is_digit (hd s)" using assms by (cases s) auto
  then have h: "hd s \<noteq> CHR ''+''" "hd s \<noteq> CHR ''-''" by (auto simp: is_digit_def)
  show ?thesis
    using assms(2) x h by (simp add: StringToNumber_def t unsigned_decimal_digits [OF assms])
qed

lemma StringToNumber_string_form: "StringToNumber (Number_toString k) = Finite (of_nat k)"
  using StringToNumber_digits [of "Number_toString k"] Number_toString_digits [of k]
  by (simp add: digits_val_Number_toString)

lemma find_by_id:
  "distinct (map rec_id xs) \<Longrightarrow> r \<in> set xs \<Longrightarrow> find (\<lambda>x. rec_id x = rec_id r) xs = Some r"
  by (induction xs) (auto simp: rev_image_eqI)

text \<open>
  C10. \<^verbatim>\<open>getFileById\<close> and \<^verbatim>\<open>deleteFileById\<close> coerce their argument with \<^verbatim>\<open>Number\<close>: for
  every record \<open>r\<close> of a reachable store, and whatever the engine does, each of them
  settles with the string form of the key of \<open>r\<close> exactly as with the key itself, and a
  lookup by the string form that meets no failure finds \<open>r\<close>.
\<close>

theorem string_id_coerced:
  assumes "wf_db db" and "r \<in> set (records db)"
  shows "getFileById eng (JStr (Number_toString (rec_id r))) db =
           getFileById eng (JNum (Finite (of_nat (rec_id r)))) db \<and>
         deleteFileById eng (JStr (Number_toString (rec_id r))) db =
           deleteFileById eng (JNum (Finite (of_nat (rec_id r)))) db \<and>
         (engine_failure eng = None \<longrightarrow>
            getFileById eng (JStr (Number_toString (rec_id r))) db = Inr (Some r))"
proof -
  have n: "Number_js (JStr (Number_toString (rec_id r))) = Number_js (JNum (Finite (of_nat (rec_id r))))"
    by (simp add: StringToNumber_string_form)
  have g: "getFileById eng (JStr (Number_toString (rec_id r))) db =
           getFileById eng (JNum (Finite (of_nat (rec_id r)))) db"
    unfolding getFileById_def n ..
  have d: "deleteFileById eng (JStr (Number_toString (rec_id r))) db =
           deleteFileById eng (JNum (Finite (of_nat (rec_id r)))) db"
    unfolding deleteFileById_def n ..
  have "distinct (map rec_id (records db))" using assms(1) by (simp add: wf_db_def)
  then have f: "find (\<lambda>x. rec_id x = rec_id r) (records db) = Some r"
    using assms(2) by (rule find_by_id)
  have s: "engine_failure eng = None \<longrightarrow>
      getFileById eng (JStr (Number_toString (rec_id r))) db = Inr (Some r)"
  proof
    assume ok: "engine_failure eng = None"
    have "getFileById eng (JNum (Finite (of_nat (rec_id r)))) db =
        Inr (find (has_key (Finite (of_nat (rec_id r)))) (records db))"
      using ok by (simp add: getFileById_ok)
    also have "has_key (Finite (of_nat (rec_id r))) = (\<lambda>x. rec_id x = rec_id r)"
      by (rule ext) simp
    finally show "getFileById eng (JStr (Number_toString (rec_id r))) db = Inr (Some r)"
      unfolding f g .
  qed
  show ?thesis using g d s by blast
qed

lemma Number_toString_2: "Number_toString 2 = ''2''"
  by (simp add: Number_toString.simps digit_char_def)

theorem string_id_coerced_witness:
  "wf_db two_files \<and> record_of 2 200 b_bin \<in> set (records two_files) \<and>
   engine_failure quiet = None \<and>
   getFileById quiet (JStr ''2'') two_files = getFileById quiet (JNum (Finite 2)) two_files \<and>
   deleteFileById quiet (JStr ''2'') two_files = deleteFileById quiet (JNum (Finite 2)) two_files \<and>
   getFileById quiet (JStr ''2'') two_files = Inr (Some (record_of 2 200 b_bin))"
proof -
  have h1: "wf_db two_files"
    by (simp add: wf_db_def two_files_def record_of_def max_key_def)
  have h2: "record_of 2 200 b_bin \<in> set (records two_files)"
    by (simp add: two_files_def)
  have h3: "engine_failure quiet = None"
    by (simp add: quiet_def)
  have i: "rec_id (record_of 2 200 b_bin) = 2" by (simp add: record_of_def)
  have n: "Finite (of_nat 2) = Finite 2" by simp
  note t = string_id_coerced [OF h1 h2, of quiet, unfolded i Number_toString_2 n]
  show ?thesis
    using h1 h2 h3 t by blast
qed

section \<open>Properties of the upload handler\<close>

lemma new_records_length [simp]: "length (new_records env i k fs) = length fs"
  by (induction fs arbitrary: i k) auto

lemma new_records_blob: "map rec_blob (new_records env i k fs) = fs"
  by (induction fs arbitrary: i k) (auto simp: record_of_def)

lemma new_records_name: "map rec_name (new_records env i k fs) = map file_name fs"
  by (induction fs arbitrary: i k) (auto simp: record_of_def)

lemma new_records_type: "map rec_type (new_records env i k fs) = map file_type fs"
  by (induction fs arbitrary: i k) (auto simp: record_of_def)

lemma new_records_size: "map rec_size (new_records env i k fs) = map file_size fs"
  by (induction fs arbitrary: i k) (auto simp: record_of_def)

lemma new_records_id: "map rec_id (new_records env i k fs) = [k ..< k + length fs]"
  by (induction fs arbitrary: i k) (auto simp: record_of_def upt_rec)

lemma new_records_added:
  "map rec_added (new_records env i k fs) = map (add_now env) [i ..< i + length fs]"
  by (induction fs arbitrary: i k) (auto simp: record_of_def upt_rec)

lemma add_rejection_None:
  "add_rejection eng g = None \<longleftrightarrow> engine_failure eng = None \<and> g \<le> max_key"
  by (auto simp: add_rejection_def split: option.splits)

lemma addFileEntry_rejected:
  assumes "add_rejection eng (keygen db) = Some e"
  shows "addFileEntry eng now f db = Inl e"
proof (cases "engine_failure eng")
  case None
  then have x: "keygen db > max_key" and e: "e = engine_exn eng ''ConstraintError''"
    using assms by (auto simp: add_rejection_def split: if_splits)
  have "open_error eng = None" "request_error eng = None"
    using None by (simp_all add: engine_failure_None)
  then show ?thesis using x e
    by (simp add: addFileEntry_def openDB_def store_add_def)
next
  case (Some e')
  then show ?thesis using assms by (simp add: add_rejection_def failing_wrapper)
qed

lemma addFileEntry_Inl_iff:
  "addFileEntry eng now f db = Inl e \<longleftrightarrow> add_rejection eng (keygen db) = Some e"
  by (auto simp: add_rejection_def engine_failure_def engine_exn_def addFileEntry_def
      openDB_def store_add_def split: option.splits if_splits)

lemma upload_loop_ok:
  assumes "\<forall>j < length fs. add_rejection (add_engine env (i + j)) (keygen db + j) = None"
    and "list_all (\<lambda>r. rec_id r < keygen db) (records db)"
  shows "upload_loop env i fs db =
     (db\<lparr>records := records db @ new_records env i (keygen db) fs,
         keygen := keygen db + length fs\<rparr>, None)"
  using assms
proof (induction fs arbitrary: i db)
  case Nil
  then show ?case by simp
next
  case (Cons f fs)
  let ?db1 = "db\<lparr>records := records db @ [record_of (keygen db) (add_now env i) f],
                 keygen := keygen db + 1\<rparr>"
  have "add_rejection (add_engine env i) (keygen db) = None" using Cons.prems(1) by force
  then have e: "engine_failure (add_engine env i) = None" and room: "keygen db \<le> max_key"
    by (simp_all add: add_rejection_None)
  have a: "addFileEntry (add_engine env i) (add_now env i) f db = Inr (keygen db, ?db1)"
    using e room Cons.prems(2) by (intro addFileEntry_ok) simp_all
  have p1: "\<forall>j < length fs. add_rejection (add_engine env (Suc i + j)) (keygen ?db1 + j) = None"
    using Cons.prems(1) by force
  have p3: "list_all (\<lambda>r. rec_id r < keygen ?db1) (records ?db1)"
    using Cons.prems(2) by (auto simp: list_all_iff record_of_def)
  show ?case using a Cons.IH [OF p1 p3] by simp
qed

lemma upload_loop_fails:
  assumes "k < length fs"
    and "\<forall>j < k. add_rejection (add_engine env (i + j)) (keygen db + j) = None"
    and "add_rejection (add_engine env (i + k)) (keygen db + k) = Some e"
    and "list_all (\<lambda>r. rec_id r < keygen db) (records db)"
  shows "upload_loop env i fs db =
     (db\<lparr>records := records db @ new_records env i (keygen db) (take k fs),
         keygen := keygen db + k\<rparr>, Some e)"
  using assms
proof (induction fs arbitrary: i db k)
  case Nil
  then show ?case by simp
next
  case (Cons f fs)
  show ?case
  proof (cases k)
    case 0
    then have "addFileEntry (add_engine env i) (add_now env i) f db = Inl e"
      using Cons.prems(3) by (simp add: addFileEntry_rejected)
    then show ?thesis using 0 by simp
  next
    case (Suc k')
    let ?db1 = "db\<lparr>records := records db @ [record_of (keygen db) (add_now env i) f],
                   keygen := keygen db + 1\<rparr>"
    have "add_rejection (add_engine env i) (keygen db) = None" using Cons.prems(2) Suc by force
    then have e: "engine_failure (add_engine env i) = None" and room: "keygen db \<le> max_key"
      by (simp_all add: add_rejection_None)
    have a: "addFileEntry (add_engine env i) (add_now env i) f db = Inr (keygen db, ?db1)"
      using e room Cons.prems(4) by (intro addFileEntry_ok) simp_all
    have p0: "k' < length fs" using Cons.prems(1) Suc by simp
    have p1: "\<forall>j < k'. add_rejection (add_engine env (Suc i + j)) (keygen ?db1 + j) = None"
      using Cons.prems(2) Suc by force
    have p2: "add_rejection (add_engine env (Suc i + k')) (keygen ?db1 + k') = Some e"
      using Cons.prems(3) Suc by simp
    have p4: "list_all (\<lambda>r. rec_id r < keygen ?db1) (records ?db1)"
      using Cons.prems(4) by (auto simp: list_all_iff record_of_def)
    show ?thesis using a Suc Cons.IH [OF p0 p1 p2 p4] by simp
  qed
qed

lemma renderList_frame:
  "idb (snd (renderList env p)) = idb p"
  "fileInput_files (snd (renderList env p)) = fileInput_files p"
  "uploadBtn_disabled (snd (renderList env p)) = uploadBtn_disabled p"
  "uploadBtn_textContent (snd (renderList env p)) = uploadBtn_textContent p"
  "alerts (snd (renderList env p)) = alerts p"
  "unhandled_rejections (snd (renderList env p)) = unhandled_rejections p"
  by (simp_all add: renderList_def Let_def split: sum.splits)

lemma upload_catch_frame:
  "idb (upload_catch err p) = idb p"
  "fileInput_files (upload_catch err p) = fileInput_files p"
  "uploadBtn_disabled (upload_catch err p) = uploadBtn_disabled p"
  "fileList (upload_catch err p) = fileList p"
  by (simp_all add: upload_catch_def)

lemma upload_try_disabled: "uploadBtn_disabled (upload_try env p) = uploadBtn_disabled p"
proof -
  obtain db' r where l: "upload_loop env 0 (fileInput_files p) (idb p) = (db', r)"
    by (cases "upload_loop env 0 (fileInput_files p) (idb p)")
  show ?thesis
  proof (cases r)
    case None
    obtain q p' where rl: "renderList env (p\<lparr>idb := db', fileInput_files := []\<rparr>) = (q, p')"
      by (cases "renderList env (p\<lparr>idb := db', fileInput_files := []\<rparr>)")
    have "uploadBtn_disabled p' = uploadBtn_disabled p"
      using renderList_frame(3) [of env "p\<lparr>idb := db', fileInput_files := []\<rparr>"] rl by simp
    then show ?thesis using l None rl
      by (cases q) (simp_all add: upload_try_def upload_catch_frame)
  next
    case (Some err)
    then show ?thesis using l by (simp add: upload_try_def upload_catch_frame)
  qed
qed

lemma upload_try_idb: "idb (upload_try env p) = fst (upload_loop env 0 (fileInput_files p) (idb p))"
proof -
  obtain db' r where l: "upload_loop env 0 (fileInput_files p) (idb p) = (db', r)"
    by (cases "upload_loop env 0 (fileInput_files p) (idb p)")
  show ?thesis
  proof (cases r)
    case None
    obtain q p' where rl: "renderList env (p\<lparr>idb := db', fileInput_files := []\<rparr>) = (q, p')"
      by (cases "renderList env (p\<lparr>idb := db', fileInput_files := []\<rparr>)")
    have "idb p' = db'"
      using renderList_frame(1) [of env "p\<lparr>idb := db', fileInput_files := []\<rparr>"] rl by simp
    then show ?thesis using l None rl
      by (cases q) (simp_all add: upload_try_def upload_catch_frame)
  next
    case (Some err)
    then show ?thesis using l by (simp add: upload_try_def upload_catch_frame)
  qed
qed

lemma uploadBtn_click_unfold:
  "uploadBtn_click env p =
     (if fileInput_files p = [] then p\<lparr>alerts := alerts p @ [''Select at least one file'']\<rparr>
      else upload_finally (upload_try env (upload_begin p)))"
  by (simp add: uploadBtn_click_def uploadBtn_run_def)

lemma uploadBtn_click_idb:
  "idb (uploadBtn_click env p) = fst (upload_loop env 0 (fileInput_files p) (idb p))"
  by (simp add: uploadBtn_click_unfold upload_finally_def upload_try_idb upload_begin_def)

lemma upload_loop_waits_button:
  "list_all (\<lambda>q. uploadBtn_disabled q = uploadBtn_disabled p \<and>
                 uploadBtn_textContent q = uploadBtn_textContent p)
     (upload_loop_waits env i fs p)"
proof (induction fs arbitrary: i p)
  case Nil
  then show ?case by simp
next
  case (Cons f fs)
  show ?case
  proof (cases "addFileEntry (add_engine env i) (add_now env i) f (idb p)")
    case (Inl err)
    then show ?thesis by simp
  next
    case (Inr kd)
    obtain k db' where kd: "kd = (k, db')" by (cases kd)
    show ?thesis using Inr kd Cons.IH [where i = "Suc i" and p = "p\<lparr>idb := db'\<rparr>"] by simp
  qed
qed

lemma upload_loop_waits_first:
  "fs \<noteq> [] \<Longrightarrow> upload_loop_waits env i fs p \<noteq> [] \<and> hd (upload_loop_waits env i fs p) = p"
  by (cases fs) simp_all

lemma upload_waits_button:
  "list_all (\<lambda>q. uploadBtn_disabled q = uploadBtn_disabled p \<and>
                 uploadBtn_textContent q = uploadBtn_textContent p)
     (upload_waits env p)"
  using upload_loop_waits_button [where p = p and env = env and i = 0 and fs = "fileInput_files p"]
  by (simp add: upload_waits_def split: prod.splits option.splits)

lemma upload_waits_first:
  "fileInput_files p \<noteq> [] \<Longrightarrow> upload_waits env p \<noteq> [] \<and> hd (upload_waits env p) = p"
  using upload_loop_waits_first [where fs = "fileInput_files p" and env = env and i = 0 and p = p]
  by (simp add: upload_waits_def)

text \<open>
  C9. A run of the upload handler on a non-empty selection passes through at least one
  page at which it waits, and ends; the first of these pages is the page of the click with
  the button disabled and labelled \<^verbatim>\<open>Uploading...\<close>; at every page at which the run waits
  the button is disabled; and the page with which the run ends, which is the result of
  the handler, has the button enabled and labelled \<^verbatim>\<open>Upload\<close>, whatever the engine does.
  On an empty selection the run is a single page with the button as it was, so a click
  on an enabled button never ends with the button disabled.
\<close>

theorem upload_control_reenabled:
  "(fileInput_files p \<noteq> [] \<longrightarrow>
      (\<exists>waits. uploadBtn_run env p = waits @ [uploadBtn_click env p] \<and> waits \<noteq> [] \<and>
         hd waits = p\<lparr>uploadBtn_disabled := True, uploadBtn_textContent := ''Uploading...''\<rparr> \<and>
         list_all (\<lambda>q. uploadBtn_disabled q \<and> uploadBtn_textContent q = ''Uploading...'') waits) \<and>
      \<not> uploadBtn_disabled (uploadBtn_click env p) \<and>
      uploadBtn_textContent (uploadBtn_click env p) = ''Upload'') \<and>
   (fileInput_files p = [] \<longrightarrow>
      uploadBtn_run env p = [uploadBtn_click env p] \<and>
      uploadBtn_disabled (uploadBtn_click env p) = uploadBtn_disabled p) \<and>
   (\<not> uploadBtn_disabled p \<longrightarrow> \<not> uploadBtn_disabled (uploadBtn_click env p)) \<and>
   uploadBtn_disabled (upload_begin p) \<and>
   uploadBtn_disabled (upload_try env (upload_begin p)) \<and>
   \<not> uploadBtn_disabled (upload_finally (upload_try env (upload_begin p)))"
proof -
  let ?p1 = "upload_begin p"
  let ?w = "upload_waits env ?p1"
  have p1: "?p1 = p\<lparr>uploadBtn_disabled := True, uploadBtn_textContent := ''Uploading...''\<rparr>"
    by (simp add: upload_begin_def)
  have a: "fileInput_files p \<noteq> [] \<longrightarrow>
      (\<exists>waits. uploadBtn_run env p = waits @ [uploadBtn_click env p] \<and> waits \<noteq> [] \<and>
         hd waits = p\<lparr>uploadBtn_disabled := True, uploadBtn_textContent := ''Uploading...''\<rparr> \<and>
         list_all (\<lambda>q. uploadBtn_disabled q \<and> uploadBtn_textContent q = ''Uploading...'') waits) \<and>
      \<not> uploadBtn_disabled (uploadBtn_click env p) \<and>
      uploadBtn_textContent (uploadBtn_click env p) = ''Upload''"
  proof
    assume ne: "fileInput_files p \<noteq> []"
    then have ne1: "fileInput_files ?p1 \<noteq> []" by (simp add: upload_begin_def)
    have r: "uploadBtn_run env p = ?w @ [uploadBtn_click env p]"
      using ne by (simp add: uploadBtn_run_def uploadBtn_click_unfold)
    have f: "?w \<noteq> []" "hd ?w = ?p1" using upload_waits_first [OF ne1, where env = env] by simp_all
    have "list_all (\<lambda>q. uploadBtn_disabled q = uploadBtn_disabled ?p1 \<and>
                 uploadBtn_textContent q = uploadBtn_textContent ?p1) ?w"
      by (rule upload_waits_button)
    then have d: "list_all (\<lambda>q. uploadBtn_disabled q \<and> uploadBtn_textContent q = ''Uploading...'') ?w"
      by (simp add: upload_begin_def)
    have w: "\<exists>waits. uploadBtn_run env p = waits @ [uploadBtn_click env p] \<and> waits \<noteq> [] \<and>
         hd waits = p\<lparr>uploadBtn_disabled := True, uploadBtn_textContent := ''Uploading...''\<rparr> \<and>
         list_all (\<lambda>q. uploadBtn_disabled q \<and> uploadBtn_textContent q = ''Uploading...'') waits"
      using r f d unfolding p1 by blast
    have e: "\<not> uploadBtn_disabled (uploadBtn_click env p)"
      "uploadBtn_textContent (uploadBtn_click env p) = ''Upload''"
      using ne by (simp_all add: uploadBtn_click_unfold upload_finally_def)
    show "(\<exists>waits. uploadBtn_run env p = waits @ [uploadBtn_click env p] \<and> waits \<noteq> [] \<and>
         hd waits = p\<lparr>uploadBtn_disabled := True, uploadBtn_textContent := ''Uploading...''\<rparr> \<and>
         list_all (\<lambda>q. uploadBtn_disabled q \<and> uploadBtn_textContent q = ''Uploading...'') waits) \<and>
      \<not> uploadBtn_disabled (uploadBtn_click env p) \<and>
      uploadBtn_textContent (uploadBtn_click env p) = ''Upload''"
      using w e by blast
  qed
  have b: "fileInput_files p = [] \<longrightarrow>
      uploadBtn_run env p = [uploadBtn_click env p] \<and>
      uploadBtn_disabled (uploadBtn_click env p) = uploadBtn_disabled p"
    by (simp add: uploadBtn_run_def uploadBtn_click_unfold)
  have c: "\<not> uploadBtn_disabled p \<longrightarrow> \<not> uploadBtn_disabled (uploadBtn_click env p)"
    by (simp add: uploadBtn_click_unfold upload_finally_def)
  have d1: "uploadBtn_disabled (upload_begin p)" by (simp add: upload_begin_def)
  have d2: "uploadBtn_disabled (upload_try env (upload_begin p))"
    by (simp add: upload_try_disabled upload_begin_def)
  have d3: "\<not> uploadBtn_disabled (upload_finally (upload_try env (upload_begin p)))"
    by (simp add: upload_finally_def)
  show ?thesis by (intro conjI a b c d1 d2 d3)
qed

theorem upload_control_reenabled_witness:
  "fileInput_files three_selected \<noteq> [] \<and> \<not> uploadBtn_disabled three_selected \<and>
   length (uploadBtn_run second_fails three_selected) = 3 \<and>
   uploadBtn_disabled (uploadBtn_run second_fails three_selected ! 0) \<and>
   uploadBtn_disabled (uploadBtn_run second_fails three_selected ! 1) \<and>
   uploadBtn_run second_fails three_selected ! 2 = uploadBtn_click second_fails three_selected \<and>
   \<not> uploadBtn_disabled (uploadBtn_click second_fails three_selected) \<and>
   uploadBtn_textContent (uploadBtn_click second_fails three_selected) = ''Upload''"
proof -
  have h1: "fileInput_files three_selected \<noteq> []" by (simp add: three_selected_def)
  have h2: "\<not> uploadBtn_disabled three_selected" by (simp add: three_selected_def blank_def)
  obtain waits where
    r: "uploadBtn_run second_fails three_selected =
          waits @ [uploadBtn_click second_fails three_selected]"
    and d: "list_all (\<lambda>q. uploadBtn_disabled q \<and> uploadBtn_textContent q = ''Uploading...'') waits"
    and e: "\<not> uploadBtn_disabled (uploadBtn_click second_fails three_selected)"
      "uploadBtn_textContent (uploadBtn_click second_fails three_selected) = ''Upload''"
    using upload_control_reenabled [of three_selected second_fails] h1 by blast
  have l: "length (uploadBtn_run second_fails three_selected) = 3"
    by (simp add: uploadBtn_run_def upload_waits_def upload_begin_def three_selected_def
        blank_def second_fails_def calm_def addFileEntry_def openDB_def store_add_def stored_def
        quiet_def no_fault_def failing_def fresh_db_def max_key_def)
  then have lw: "length waits = 2" using r by simp
  then have n: "uploadBtn_run second_fails three_selected ! 0 = waits ! 0"
    "uploadBtn_run second_fails three_selected ! 1 = waits ! 1"
    "uploadBtn_run second_fails three_selected ! 2 = uploadBtn_click second_fails three_selected"
    unfolding r by (simp_all add: nth_append)
  have "uploadBtn_disabled (waits ! 0)" "uploadBtn_disabled (waits ! 1)"
    using d lw by (simp_all add: list_all_length)
  then show ?thesis using h1 h2 l n e by simp
qed

text \<open>
  C1. When none of the \<open>n\<close> calls of \<^verbatim>\<open>addFileEntry\<close> of an upload into an empty store is
  rejected, the loop runs to its end, the store of the page afterwards is the one the
  loop produced, and \<^verbatim>\<open>listAllFiles()\<close> then gives \<open>n\<close> records whose names, types and
  sizes are those of the files, in order, and whose keys are pairwise distinct.
\<close>

theorem upload_then_list:
  assumes "records db = []"
    and "\<forall>j < length fs. add_rejection (add_engine env j) (keygen db + j) = None"
    and "engine_failure eng = None"
  shows "\<exists>db' recs. upload_loop env 0 fs db = (db', None) \<and>
           idb (uploadBtn_click env (p\<lparr>idb := db, fileInput_files := fs\<rparr>)) = db' \<and>
           listAllFiles eng db' = Inr recs \<and> length recs = length fs \<and>
           map rec_name recs = map file_name fs \<and> map rec_type recs = map file_type fs \<and>
           map rec_size recs = map file_size fs \<and> distinct (map rec_id recs)"
proof -
  let ?recs = "new_records env 0 (keygen db) fs"
  let ?db' = "db\<lparr>records := ?recs, keygen := keygen db + length fs\<rparr>"
  have l: "upload_loop env 0 fs db = (?db', None)"
    using upload_loop_ok [of fs env 0 db] assms(1,2) by simp
  have c: "idb (uploadBtn_click env (p\<lparr>idb := db, fileInput_files := fs\<rparr>)) = ?db'"
    using l by (simp add: uploadBtn_click_idb)
  have g: "listAllFiles eng ?db' = Inr ?recs"
    using assms(3) by (simp add: listAllFiles_ok)
  have d: "distinct (map rec_id ?recs)" by (simp add: new_records_id)
  show ?thesis
    using l c g d new_records_length new_records_name new_records_type new_records_size
    by blast
qed

lemma add_rejection_quiet: "g \<le> max_key \<Longrightarrow> add_rejection quiet g = None"
  by (simp add: add_rejection_None quiet_def)

lemma upload_two:
  "upload_loop calm 0 [a_txt, b_bin] fresh_db = (two_files, None)"
  by (simp add: addFileEntry_def openDB_def store_add_def stored_def calm_def quiet_def
      no_fault_def fresh_db_def max_key_def two_files_def record_of_def)

theorem upload_then_list_witness:
  "records fresh_db = [] \<and> engine_failure quiet = None \<and>
   add_rejection (add_engine calm 0) (keygen fresh_db + 0) = None \<and>
   add_rejection (add_engine calm 1) (keygen fresh_db + 1) = None \<and>
   listAllFiles quiet (fst (upload_loop calm 0 [a_txt, b_bin] fresh_db)) =
     Inr [record_of 1 100 a_txt, record_of 2 200 b_bin] \<and>
   (\<exists>db' recs. upload_loop calm 0 [a_txt, b_bin] fresh_db = (db', None) \<and>
      idb (uploadBtn_click calm (blank\<lparr>idb := fresh_db, fileInput_files := [a_txt, b_bin]\<rparr>)) = db' \<and>
      listAllFiles quiet db' = Inr recs \<and> length recs = length [a_txt, b_bin] \<and>
      map rec_name recs = map file_name [a_txt, b_bin] \<and>
      map rec_type recs = map file_type [a_txt, b_bin] \<and>
      map rec_size recs = map file_size [a_txt, b_bin] \<and> distinct (map rec_id recs))"
proof -
  have h1: "records fresh_db = []" by (simp add: fresh_db_def)
  have r0: "add_rejection (add_engine calm 0) (keygen fresh_db + 0) = None"
    by (simp add: calm_def add_rejection_quiet fresh_db_def max_key_def)
  have r1: "add_rejection (add_engine calm 1) (keygen fresh_db + 1) = None"
    by (simp add: calm_def add_rejection_quiet fresh_db_def max_key_def)
  have h2: "\<forall>j < length [a_txt, b_bin]. add_rejection (add_engine calm j) (keygen fresh_db + j) = None"
    by (simp add: calm_def add_rejection_quiet fresh_db_def max_key_def)
  have h3: "engine_failure quiet = None" by (simp add: quiet_def)
  have l: "listAllFiles quiet (fst (upload_loop calm 0 [a_txt, b_bin] fresh_db)) =
     Inr [record_of 1 100 a_txt, record_of 2 200 b_bin]"
    unfolding upload_two by (simp add: listAllFiles_ok h3 two_files_def)
  show ?thesis
    using h1 h3 r0 r1 l upload_then_list [OF h1 h2 h3, of blank] by blast
qed

text \<open>
  C7. When the calls of \<^verbatim>\<open>addFileEntry\<close> for the first \<open>k\<close> files of the selection are
  fulfilled and the next one is rejected with \<open>e\<close>, the upload handler leaves the store
  with its earlier records followed by one record for each of the first \<open>k\<close> files and
  nothing else, shows one alert, \<^verbatim>\<open>Upload failed:\<close> followed by the message of \<open>e\<close> (by
  its name when the message is empty), keeps the selection and the rendered list, and
  enables the button again.
\<close>

theorem upload_failure_aborts:
  assumes "wf_db (idb p)" and "k < length (fileInput_files p)"
    and "\<forall>j < k. add_rejection (add_engine env j) (keygen (idb p) + j) = None"
    and "add_rejection (add_engine env k) (keygen (idb p) + k) = Some e"
  shows "\<exists>new. records (idb (uploadBtn_click env p)) = records (idb p) @ new \<and>
           map rec_blob new = take k (fileInput_files p) \<and>
           alerts (uploadBtn_click env p) =
             alerts p @ [''Upload failed: '' @
                          (if exn_message e \<noteq> [] then exn_message e else exn_toString e)] \<and>
           suffix (exn_message e) (last (alerts (uploadBtn_click env p))) \<and>
           fileInput_files (uploadBtn_click env p) = fileInput_files p \<and>
           fileList (uploadBtn_click env p) = fileList p \<and>
           \<not> uploadBtn_disabled (uploadBtn_click env p)"
proof -
  let ?fs = "fileInput_files p"
  let ?new = "new_records env 0 (keygen (idb p)) (take k ?fs)"
  let ?db' = "(idb p)\<lparr>records := records (idb p) @ ?new, keygen := keygen (idb p) + k\<rparr>"
  let ?p1 = "upload_begin p"
  have ne: "?fs \<noteq> []" using assms(2) by auto
  have below: "list_all (\<lambda>r. rec_id r < keygen (idb p)) (records (idb p))"
    using assms(1) by (auto simp: wf_db_def list_all_iff)
  have l: "upload_loop env 0 ?fs (idb p) = (?db', Some e)"
    using upload_loop_fails [of k ?fs env 0 "idb p" e] assms(2,3,4) below by simp
  have t: "upload_try env ?p1 = upload_catch e (?p1\<lparr>idb := ?db'\<rparr>)"
    using l by (simp add: upload_try_def upload_begin_def)
  have c: "uploadBtn_click env p = upload_finally (upload_catch e (?p1\<lparr>idb := ?db'\<rparr>))"
    using ne t by (simp add: uploadBtn_click_unfold)
  have r: "records (idb (uploadBtn_click env p)) = records (idb p) @ ?new"
    unfolding c by (simp add: upload_finally_def upload_catch_def upload_begin_def)
  have a: "alerts (uploadBtn_click env p) =
             alerts p @ [''Upload failed: '' @
                          (if exn_message e \<noteq> [] then exn_message e else exn_toString e)]"
    unfolding c by (simp add: upload_finally_def upload_catch_def upload_begin_def)
  have s: "suffix (exn_message e) (last (alerts (uploadBtn_click env p)))"
  proof (cases "exn_message e = []")
    case True
    then show ?thesis by simp
  next
    case False
    then have "last (alerts (uploadBtn_click env p)) = ''Upload failed: '' @ exn_message e"
      unfolding a by simp
    then show ?thesis by (simp add: suffix_def)
  qed
  have f: "fileInput_files (uploadBtn_click env p) = fileInput_files p"
    unfolding c by (simp add: upload_finally_def upload_catch_def upload_begin_def)
  have fl: "fileList (uploadBtn_click env p) = fileList p"
    unfolding c by (simp add: upload_finally_def upload_catch_def upload_begin_def)
  have d: "\<not> uploadBtn_disabled (uploadBtn_click env p)"
    unfolding c by (simp add: upload_finally_def)
  have b: "map rec_blob ?new = take k ?fs" by (rule new_records_blob)
  show ?thesis using r b a s f fl d by blast
qed

theorem upload_failure_aborts_witness:
  "wf_db (idb three_selected) \<and> 1 < length (fileInput_files three_selected) \<and>
   add_rejection (add_engine second_fails 0) (keygen (idb three_selected) + 0) = None \<and>
   add_rejection (add_engine second_fails 1) (keygen (idb three_selected) + 1) = Some disk_full \<and>
   records (idb (uploadBtn_click second_fails three_selected)) = [record_of 1 100 a_txt] \<and>
   alerts (uploadBtn_click second_fails three_selected) = [''Upload failed: disk full''] \<and>
   \<not> uploadBtn_disabled (uploadBtn_click second_fails three_selected)"
proof -
  have h1: "wf_db (idb three_selected)"
    by (simp add: three_selected_def blank_def wf_fresh_db)
  have h2: "1 < length (fileInput_files three_selected)"
    by (simp add: three_selected_def)
  have h0: "add_rejection (add_engine second_fails 0) (keygen (idb three_selected) + 0) = None"
    by (simp add: second_fails_def calm_def add_rejection_quiet three_selected_def blank_def
        fresh_db_def max_key_def)
  have h3: "\<forall>j < 1. add_rejection (add_engine second_fails j) (keygen (idb three_selected) + j) = None"
    using h0 by simp
  have h4: "add_rejection (add_engine second_fails 1) (keygen (idb three_selected) + 1) = Some disk_full"
    by (simp add: second_fails_def failing_def add_rejection_def engine_failure_def)
  obtain new where
    r: "records (idb (uploadBtn_click second_fails three_selected)) =
          records (idb three_selected) @ new"
    and b: "map rec_blob new = take 1 (fileInput_files three_selected)"
    and a: "alerts (uploadBtn_click second_fails three_selected) =
             alerts three_selected @ [''Upload failed: '' @
               (if exn_message disk_full \<noteq> [] then exn_message disk_full
                else exn_toString disk_full)]"
    and d: "\<not> uploadBtn_disabled (uploadBtn_click second_fails three_selected)"
    using upload_failure_aborts [OF h1 h2 h3 h4] by blast
  have i: "idb (uploadBtn_click second_fails three_selected) =
      fresh_db\<lparr>records := [record_of 1 100 a_txt], keygen := 2\<rparr>"
    by (simp add: uploadBtn_click_idb three_selected_def blank_def second_fails_def calm_def
        addFileEntry_def openDB_def store_add_def stored_def quiet_def no_fault_def failing_def
        fresh_db_def max_key_def record_of_def)
  have r': "records (idb (uploadBtn_click second_fails three_selected)) = [record_of 1 100 a_txt]"
    unfolding i by simp
  have a': "alerts (uploadBtn_click second_fails three_selected) = [''Upload failed: disk full'']"
    using a by (simp add: three_selected_def blank_def disk_full_def)
  show ?thesis using h1 h2 h0 h4 r' a' d by blast
qed

section \<open>The rendered list\<close>

lemma insert_by_added:
  "insert_by by_added x ys = insort_key (\<lambda>r. - rec_added r) x ys"
  by (induction ys) (auto simp: by_added_def)

lemma Array_sort_by_added: "Array_sort by_added xs = sort_key (\<lambda>r. - rec_added r) xs"
proof -
  have "insert_by by_added = insort_key (\<lambda>r. - rec_added r)"
    by (intro ext) (rule insert_by_added)
  then show ?thesis by (simp add: Array_sort_def sort_key_def)
qed

lemma descending_iff: "sorted (map (\<lambda>r. - rec_added r) xs) \<longleftrightarrow> sorted_wrt (\<ge>) (map rec_added xs)"
  by (induction xs) auto

lemma Array_sort_descending: "sorted_wrt (\<ge>) (map rec_added (Array_sort by_added xs))"
  unfolding Array_sort_by_added descending_iff [symmetric] by (rule sorted_sort_key)

lemma Array_sort_mset: "mset (Array_sort by_added xs) = mset xs"
  unfolding Array_sort_by_added by simp

lemma Array_sort_stable:
  "filter (\<lambda>r. rec_added r = t) (Array_sort by_added xs) = filter (\<lambda>r. rec_added r = t) xs"
proof -
  have "filter (\<lambda>r. - rec_added r = - t) (sort_key (\<lambda>r. - rec_added r) xs) =
        filter (\<lambda>r. - rec_added r = - t) xs"
    by (rule sort_key_stable)
  then show ?thesis unfolding Array_sort_by_added by simp
qed

lemma Array_sort_Nil: "Array_sort cmp [] = []"
  by (simp add: Array_sort_def)

lemma node_items_rows [simp]: "node_items (map (createFileRow env) xs) = xs"
  by (induction xs) (auto simp: createFileRow_def)

lemma renderList_ok:
  assumes "engine_failure (list_engine env) = None"
  shows "fst (renderList env p) = None"
    and "node_items (fileList (snd (renderList env p))) = Array_sort by_added (records (idb p))"
  using assms by (simp_all add: renderList_def Let_def listAllFiles_ok Array_sort_Nil)

lemma upload_try_ok:
  assumes "upload_loop env 0 (fileInput_files p) (idb p) = (db', None)"
    and "engine_failure (list_engine env) = None"
  shows "node_items (fileList (upload_try env p)) = Array_sort by_added (records db')"
proof -
  let ?q = "p\<lparr>idb := db', fileInput_files := []\<rparr>"
  obtain r p' where rl: "renderList env ?q = (r, p')" by (cases "renderList env ?q")
  have "r = None" using renderList_ok(1) [OF assms(2), of ?q] rl by simp
  moreover have "node_items (fileList p') = Array_sort by_added (records db')"
    using renderList_ok(2) [OF assms(2), of ?q] rl by simp
  ultimately show ?thesis using assms(1) rl by (simp add: upload_try_def)
qed

text \<open>
  C5. A \<^verbatim>\<open>renderList()\<close> whose \<^verbatim>\<open>listAllFiles()\<close> meets no failure is fulfilled, and the
  rows it draws are the records of the store in descending order of \<^verbatim>\<open>added\<close>. In
  particular, after an upload of three files into an empty store with clock readings
  \<open>t\<^sub>1 < t\<^sub>2 < t\<^sub>3\<close>, the rows from top to bottom carry \<open>t\<^sub>3\<close>, \<open>t\<^sub>2\<close>, \<open>t\<^sub>1\<close> and
  show the third, the second and the first file.
\<close>

theorem renderList_newest_first:
  assumes "engine_failure (list_engine env) = None"
  shows "fst (renderList env p) = None \<and>
         sorted_wrt (\<ge>) (map rec_added (node_items (fileList (snd (renderList env p))))) \<and>
         mset (node_items (fileList (snd (renderList env p)))) = mset (records (idb p)) \<and>
         (records (idb p) = [] \<and> fileInput_files p = [f1, f2, f3] \<and>
          (\<forall>j < 3. add_rejection (add_engine env j) (keygen (idb p) + j) = None) \<and>
          add_now env 0 < add_now env 1 \<and> add_now env 1 < add_now env 2 \<longrightarrow>
            map rec_added (node_items (fileList (uploadBtn_click env p))) =
              [add_now env 2, add_now env 1, add_now env 0] \<and>
            map rec_blob (node_items (fileList (uploadBtn_click env p))) = [f3, f2, f1])"
proof -
  have a: "fst (renderList env p) = None" using assms by (rule renderList_ok)
  have i: "node_items (fileList (snd (renderList env p))) = Array_sort by_added (records (idb p))"
    using assms by (rule renderList_ok)
  have b: "sorted_wrt (\<ge>) (map rec_added (node_items (fileList (snd (renderList env p)))))"
    unfolding i by (rule Array_sort_descending)
  have c: "mset (node_items (fileList (snd (renderList env p)))) = mset (records (idb p))"
    unfolding i by (rule Array_sort_mset)
  have d: "records (idb p) = [] \<and> fileInput_files p = [f1, f2, f3] \<and>
          (\<forall>j < 3. add_rejection (add_engine env j) (keygen (idb p) + j) = None) \<and>
          add_now env 0 < add_now env 1 \<and> add_now env 1 < add_now env 2 \<longrightarrow>
            map rec_added (node_items (fileList (uploadBtn_click env p))) =
              [add_now env 2, add_now env 1, add_now env 0] \<and>
            map rec_blob (node_items (fileList (uploadBtn_click env p))) = [f3, f2, f1]"
  proof (intro impI, elim conjE)
    assume e: "records (idb p) = []" and fs: "fileInput_files p = [f1, f2, f3]"
      and ok: "\<forall>j < 3. add_rejection (add_engine env j) (keygen (idb p) + j) = None"
      and t1: "add_now env 0 < add_now env 1" and t2: "add_now env 1 < add_now env 2"
    let ?k = "keygen (idb p)"
    let ?rs = "new_records env 0 ?k [f1, f2, f3]"
    let ?db' = "(idb p)\<lparr>records := ?rs, keygen := ?k + 3\<rparr>"
    let ?p1 = "upload_begin p"
    have l: "upload_loop env 0 (fileInput_files ?p1) (idb ?p1) = (?db', None)"
      using upload_loop_ok [of "[f1, f2, f3]" env 0 "idb p"] e ok
      by (simp add: fs upload_begin_def)
    have le: "engine_failure (list_engine (env)) = None" by (rule assms)
    have n: "node_items (fileList (uploadBtn_click env p)) = Array_sort by_added ?rs"
      using upload_try_ok [OF l le] by (simp add: uploadBtn_click_unfold fs upload_finally_def)
    have s: "Array_sort by_added ?rs =
        [record_of (Suc (Suc ?k)) (add_now env 2) f3, record_of (Suc ?k) (add_now env 1) f2,
         record_of ?k (add_now env 0) f1]"
      using t1 t2 by (simp add: Array_sort_def by_added_def record_of_def numeral_2_eq_2)
    show "map rec_added (node_items (fileList (uploadBtn_click env p))) =
              [add_now env 2, add_now env 1, add_now env 0] \<and>
            map rec_blob (node_items (fileList (uploadBtn_click env p))) = [f3, f2, f1]"
      unfolding n s by (simp add: record_of_def)
  qed
  show ?thesis by (intro conjI a b c d)
qed

theorem renderList_newest_first_witness:
  "engine_failure (list_engine calm) = None \<and>
   add_now calm 0 < add_now calm 1 \<and> add_now calm 1 < add_now calm 2 \<and>
   map rec_added (node_items (fileList (uploadBtn_click calm three_selected))) = [300, 200, 100] \<and>
   map rec_blob (node_items (fileList (uploadBtn_click calm three_selected))) =
     [c_png, b_bin, a_txt]"
proof -
  have h: "engine_failure (list_engine calm) = None" by (simp add: calm_def quiet_def)
  have p1: "records (idb three_selected) = []"
    by (simp add: three_selected_def blank_def fresh_db_def)
  have p2: "fileInput_files three_selected = [a_txt, b_bin, c_png]"
    by (simp add: three_selected_def)
  have p4: "\<forall>j < 3. add_rejection (add_engine calm j) (keygen (idb three_selected) + j) = None"
    by (simp add: calm_def add_rejection_quiet three_selected_def blank_def fresh_db_def
        max_key_def)
  have p5: "add_now calm 0 < add_now calm 1" by (simp add: calm_def)
  have p6: "add_now calm 1 < add_now calm 2" by (simp add: calm_def)
  have n: "add_now calm 0 = 100" "add_now calm 1 = 200" "add_now calm 2 = 300"
    by (simp_all add: calm_def)
  have "map rec_added (node_items (fileList (uploadBtn_click calm three_selected))) =
              [add_now calm 2, add_now calm 1, add_now calm 0] \<and>
        map rec_blob (node_items (fileList (uploadBtn_click calm three_selected))) =
              [c_png, b_bin, a_txt]"
    using renderList_newest_first [OF h, of three_selected a_txt b_bin c_png] p1 p2 p4 p5 p6
    by blast
  then show ?thesis using h p5 p6 unfolding n by blast
qed

section \<open>Failures outside the upload handler\<close>

text \<open>
  C8. The handlers of the delete, refresh and clear-all buttons never call \<^verbatim>\<open>alert\<close>:
  they leave the alerts of the page as they were in every run. When the engine fails the
  request behind one of them with \<open>disk_full\<close>, the rejection is an unhandled one and
  the user is shown nothing, where the upload handler shows \<^verbatim>\<open>Upload failed: disk full\<close>.
\<close>

theorem failures_outside_upload_not_alerted:
  "alerts (delBtn_click env item p) = alerts p \<and>
   alerts (refreshBtn_click env p) = alerts p \<and>
   alerts (clearAllBtn_click env p) = alerts p \<and>
   unhandled_rejections (delBtn_click (env\<lparr>confirm_answer := True, row_engine := failing\<rparr>) item p)
     = unhandled_rejections p @ [disk_full] \<and>
   unhandled_rejections (clearAllBtn_click (env\<lparr>confirm_answer := True, row_engine := failing\<rparr>) p)
     = unhandled_rejections p @ [disk_full] \<and>
   unhandled_rejections (refreshBtn_click (env\<lparr>list_engine := failing\<rparr>) p)
     = unhandled_rejections p @ [disk_full]"
proof -
  have ra: "\<And>q. alerts (unawaited (renderList env q)) = alerts q"
    using renderList_frame(5) [of env]
    by (simp add: unawaited_def split: prod.splits option.splits) (metis snd_conv)
  have f: "engine_failure failing = Some disk_full"
    by (simp add: failing_def engine_failure_def)
  have a1: "alerts (delBtn_click env item p) = alerts p"
    by (simp add: delBtn_click_def Let_def ra split: sum.splits)
  have a2: "alerts (refreshBtn_click env p) = alerts p"
    by (simp add: refreshBtn_click_def ra)
  have a3: "alerts (clearAllBtn_click env p) = alerts p"
    by (simp add: clearAllBtn_click_def Let_def ra split: sum.splits)
  have d: "deleteFileById failing (JNum (Finite q)) db = Inl disk_full" for q db
    by (simp add: deleteFileById_def openDB_def store_delete_def failing_def)
  have u1: "unhandled_rejections (delBtn_click (env\<lparr>confirm_answer := True, row_engine := failing\<rparr>) item p)
     = unhandled_rejections p @ [disk_full]"
    by (simp add: delBtn_click_def Let_def d)
  have u2: "unhandled_rejections (clearAllBtn_click (env\<lparr>confirm_answer := True, row_engine := failing\<rparr>) p)
     = unhandled_rejections p @ [disk_full]"
    by (simp add: clearAllBtn_click_def Let_def failing_wrapper(3) [OF f])
  have u3: "unhandled_rejections (refreshBtn_click (env\<lparr>list_engine := failing\<rparr>) p)
     = unhandled_rejections p @ [disk_full]"
    by (simp add: refreshBtn_click_def renderList_def unawaited_def failing_wrapper(2) [OF f])
  show ?thesis by (intro conjI a1 a2 a3 u1 u2 u3)
qed

end
